theory Spec2Isabelle
  imports Complex_Main
begin

section \<open>The moodboard plugin (moodboard.js) as state-passing functions\<close>

text \<open>
  The plugin keeps one \<open>data\<close> object per container, attached to the container with
  jQuery's \<open>$moodboard.data('moodboard', data)\<close>. The object is shared by reference
  between the container, the deferred \<open>window.load\<close> handler and the interval
  callback, and several commands mutate it without storing it again, so objects live in
  an explicit heap and are named by their address. One container is modelled; its
  \<open>.slide\<close> children are a fixed list of elements named by their position.

  A JavaScript exception is the left summand of the result; the world returned with it
  is the state at the moment of the throw (effects before a throw are not undone).
\<close>

subsection \<open>JavaScript values and operators\<close>

datatype js_error = TypeError

type_synonym addr = nat
type_synonym timer_id = nat
type_synonym elem = nat

text \<open>
  The remainder operator \<open>%\<close> on integers: the sign of the result is the sign of the
  dividend, and a zero divisor gives \<open>NaN\<close> (here \<open>None\<close>).
\<close>

definition js_rem :: "int \<Rightarrow> int \<Rightarrow> int option" where
  "js_rem a n = (if n = 0 then None else Some (sgn a * (\<bar>a\<bar> mod \<bar>n\<bar>)))"

text \<open>
  Array indexing \<open>xs[k]\<close>: \<open>undefined\<close> (here \<open>None\<close>) when \<open>k\<close> is \<open>NaN\<close>, negative
  or not below the length.
\<close>

definition js_index :: "'a list \<Rightarrow> int option \<Rightarrow> 'a option" where
  "js_index xs k =
     (case k of
        None \<Rightarrow> None
      | Some i \<Rightarrow> if 0 \<le> i \<and> i < int (length xs) then Some (xs ! nat i) else None)"

text \<open>\<open>!x\<close> for a value that is \<open>null\<close> or a number: true for \<open>null\<close> and for \<open>0\<close>.\<close>

definition falsy_num :: "int option \<Rightarrow> bool" where
  "falsy_num x = (case x of None \<Rightarrow> True | Some v \<Rightarrow> v = 0)"

text \<open>
  Truthiness of \<open>data.interval\<close>: \<open>null\<close> or a handle of \<open>setInterval\<close>; the handle 0
  would be falsy.
\<close>

definition truthy_handle :: "timer_id option \<Rightarrow> bool" where
  "truthy_handle h = (case h of None \<Rightarrow> False | Some t \<Rightarrow> t \<noteq> 0)"

text \<open>\<open>null\<close> in arithmetic is the number 0.\<close>

definition to_number :: "int option \<Rightarrow> int" where
  "to_number x = (case x of None \<Rightarrow> 0 | Some v \<Rightarrow> v)"

subsection \<open>Elements, the data object, the page\<close>

text \<open>
  A slide element: its measured size (\<open>$slide.width()\<close>, \<open>$slide.height()\<close>, whole
  pixels) and the style properties the plugin assigns (\<open>None\<close>: never assigned).
  Offsets are halves of whole pixels, hence rationals.
\<close>

record slide_el =
  el_width :: int
  el_height :: int
  css_width :: "int option"
  css_height :: "int option"
  css_left :: "rat option"
  css_top :: "rat option"
  css_opacity :: "int option"
  css_zindex :: "int option"

text \<open>
  The \<open>data\<close> object of \<open>_do_initialize\<close> after \<open>$.extend(data, defaults, options)\<close>.
  The three function-valued options are the defaults of the file.
\<close>

record data_obj =
  count :: int
  current :: int
  interval :: "timer_id option"
  slides :: "elem list"
  widths :: "int list"
  heights :: "int list"
  width :: "int option"
  height :: "int option"
  slide_time :: int
  autostart :: bool
  controls :: bool

text \<open>
  The options object of \<open>init\<close>, with the five documented keys; \<open>None\<close> is a key
  that is absent (or \<open>null\<close>, for the sizes). \<open>$.extend\<close> copies the keys that are
  present over the defaults \<open>null\<close>, \<open>null\<close>, 2500, \<open>true\<close>, \<open>true\<close>.
\<close>

record options =
  opt_width :: "int option"
  opt_height :: "int option"
  opt_slide_time :: "int option"
  opt_autostart :: "bool option"
  opt_controls :: "bool option"

text \<open>
  The page around one container: its CSS classes, the object attached under the key
  \<open>moodboard\<close>, the heap of data objects, the number of \<open>.controls\<close> blocks inside it,
  its slides, its measured size, the handlers bound to \<open>window.load\<close> (each closing over
  the slides found at the call and over its data object), the running intervals (each
  closing over its data object) and the next handle \<open>setInterval\<close> returns.
\<close>

record world =
  classes :: "string set"
  attached :: "addr option"
  heap :: "data_obj list"
  controls_blocks :: nat
  slide_els :: "slide_el list"
  mb_width :: int
  mb_height :: int
  load_handlers :: "(elem list \<times> addr) list"
  timers :: "(timer_id \<times> addr) list"
  next_timer :: timer_id

type_synonym 'a result = "(js_error + 'a) \<times> world"

datatype command =
  Init options | Next | Previous | Jump int | PlayPause | Play | Pause | Destroy

subsection \<open>\<open>_init_slides\<close>, \<open>_init_controls\<close>, \<open>_reveal\<close>\<close>

text \<open>\<open>Math.max(0, (outer - inner) / 2)\<close>; \<open>NaN\<close> when \<open>inner\<close> is \<open>undefined\<close>.\<close>

definition centre :: "int \<Rightarrow> int option \<Rightarrow> rat option" where
  "centre outer inner =
     (case inner of None \<Rightarrow> None | Some x \<Rightarrow> Some (max 0 (of_int (outer - x) / 2)))"

text \<open>jQuery's \<open>.css\<close> leaves a property alone when the value is \<open>undefined\<close> or \<open>NaN\<close>.\<close>

definition set_css :: "'a option \<Rightarrow> 'a option \<Rightarrow> 'a option" where
  "set_css old v = (case v of None \<Rightarrow> old | Some x \<Rightarrow> Some x)"

text \<open>
  The body of the \<open>for\<close> loop of \<open>_init_slides\<close> at index \<open>i\<close>: the \<open>.css({...})\<close>
  call on one element, and its place in the list of elements.
\<close>

definition slide_css :: "data_obj \<Rightarrow> nat \<Rightarrow> slide_el \<Rightarrow> slide_el" where
  "slide_css d i s =
     (let wi = js_index (widths d) (Some (int i));
          hi = js_index (heights d) (Some (int i))
      in s\<lparr>css_width := set_css (css_width s) wi,
            css_height := set_css (css_height s) hi,
            css_left := set_css (css_left s) (centre (to_number (width d)) wi),
            css_top := set_css (css_top s) (centre (to_number (height d)) hi),
            css_opacity := Some (if i = 0 then 1 else 0)\<rparr>)"

definition layout_slide :: "data_obj \<Rightarrow> nat \<Rightarrow> slide_el list \<Rightarrow> slide_el list" where
  "layout_slide d i els = (let e = slides d ! i in els[e := slide_css d i (els ! e)])"

definition init_slides :: "addr \<Rightarrow> world \<Rightarrow> world" where
  "init_slides a w =
     (let d0 = heap w ! a;
          d1 = (if falsy_num (width d0) then d0\<lparr>width := Some (mb_width w)\<rparr> else d0);
          d2 = (if falsy_num (height d1) then d1\<lparr>height := Some (mb_height w)\<rparr> else d1)
      in w\<lparr>heap := (heap w)[a := d2],
            slide_els := fold (layout_slide d2) [0..<length (slides d2)] (slide_els w)\<rparr>)"

definition init_controls :: "world \<Rightarrow> world" where
  "init_controls w = w\<lparr>controls_blocks := controls_blocks w + 1\<rparr>"

text \<open>\<open>$slide.css({'z-index': z, opacity: opac})\<close> on the element \<open>e\<close>.\<close>

definition css_show :: "elem \<Rightarrow> int \<Rightarrow> int \<Rightarrow> world \<Rightarrow> world" where
  "css_show e z opac w =
     w\<lparr>slide_els :=
         (slide_els w)[e := (slide_els w ! e)\<lparr>css_zindex := Some z, css_opacity := Some opac\<rparr>]\<rparr>"

text \<open>
  \<open>_reveal($mb, data, newidx)\<close>. \<open>data.slides[k]\<close> is \<open>undefined\<close> for an index out
  of range, and calling \<open>.css\<close> on it throws a TypeError; the first statement has
  run by the time the second throws.
\<close>

definition reveal :: "addr \<Rightarrow> int option \<Rightarrow> world \<Rightarrow> unit result" where
  "reveal a newidx w =
     (let d = heap w ! a in
      case js_index (slides d) (Some (current d)) of
        None \<Rightarrow> (Inl TypeError, w)
      | Some e0 \<Rightarrow>
          let w1 = css_show e0 100 0 w in
          (case js_index (slides d) newidx of
             None \<Rightarrow> (Inl TypeError, w1)
           | Some e1 \<Rightarrow>
               let w2 = css_show e1 101 1 w1 in
               (Inr (), w2\<lparr>heap := (heap w2)[a := d\<lparr>current := to_number newidx\<rparr>]\<rparr>)))"

subsection \<open>\<open>_do_initialize\<close> and its \<open>window.load\<close> handler\<close>

definition do_initialize :: "options \<Rightarrow> world \<Rightarrow> world" where
  "do_initialize opts w =
     (let found = [0..<length (slide_els w)];
          data = \<lparr>count = int (length found), current = 0, interval = None,
                  slides = [], widths = [], heights = [],
                  width = opt_width opts, height = opt_height opts,
                  slide_time = (case opt_slide_time opts of None \<Rightarrow> 2500 | Some t \<Rightarrow> t),
                  autostart = (case opt_autostart opts of None \<Rightarrow> True | Some b \<Rightarrow> b),
                  controls = (case opt_controls opts of None \<Rightarrow> True | Some b \<Rightarrow> b)\<rparr>
      in w\<lparr>heap := heap w @ [data],
            load_handlers := load_handlers w @ [(found, length (heap w))]\<rparr>)"

text \<open>The \<open>$slides.each\<close> loop of the handler: three pushes per slide.\<close>

fun measure_slides :: "elem list \<Rightarrow> addr \<Rightarrow> world \<Rightarrow> world" where
  "measure_slides [] a w = w"
| "measure_slides (e # es) a w =
     (let d = heap w ! a;
          s = slide_els w ! e;
          d' = d\<lparr>slides := slides d @ [e],
                 heights := heights d @ [el_height s],
                 widths := widths d @ [el_width s]\<rparr>
      in measure_slides es a (w\<lparr>heap := (heap w)[a := d']\<rparr>))"

subsection \<open>\<open>_handler\<close> and the commands\<close>

text \<open>
  \<open>_handler(_fn)\<close>: read the attached object (\<open>undefined\<close> when there is none), call
  \<open>_fn\<close>, and attach what it returns only when that is truthy. \<open>_fn\<close> returns the data
  object (\<open>Some\<close>), or \<open>null\<close> or nothing (\<open>None\<close>).
\<close>

definition handler ::
  "(addr option \<Rightarrow> world \<Rightarrow> (addr option) result) \<Rightarrow> world \<Rightarrow> unit result" where
  "handler fn w =
     (case fn (attached w) w of
        (Inl e, w') \<Rightarrow> (Inl e, w')
      | (Inr ret, w') \<Rightarrow>
          (Inr (), (case ret of None \<Rightarrow> w' | Some a \<Rightarrow> w'\<lparr>attached := Some a\<rparr>)))"

definition clearInterval :: "timer_id \<Rightarrow> world \<Rightarrow> world" where
  "clearInterval t w = w\<lparr>timers := filter (\<lambda>p. fst p \<noteq> t) (timers w)\<rparr>"

definition pause_fn :: "addr option \<Rightarrow> world \<Rightarrow> (addr option) result" where
  "pause_fn data w =
     (case data of
        None \<Rightarrow> (Inl TypeError, w)
      | Some a \<Rightarrow>
          (case interval (heap w ! a) of
             None \<Rightarrow> (Inr None, w)
           | Some t \<Rightarrow>
               if t \<noteq> 0 then
                 (let w1 = clearInterval t w;
                      w2 = w1\<lparr>heap := (heap w1)[a := (heap w1 ! a)\<lparr>interval := None\<rparr>]\<rparr>;
                      w3 = w2\<lparr>classes := classes w2 - {''playing''}\<rparr>
                  in (Inr (Some a), w3))
               else (Inr None, w)))"

definition play_fn :: "addr option \<Rightarrow> world \<Rightarrow> (addr option) result" where
  "play_fn data w =
     (case data of
        None \<Rightarrow> (Inl TypeError, w)
      | Some a \<Rightarrow>
          if \<not> truthy_handle (interval (heap w ! a)) then
            (let w1 = w\<lparr>classes := insert ''playing'' (classes w)\<rparr>;
                 t = next_timer w1;
                 w2 = w1\<lparr>timers := timers w1 @ [(t, a)], next_timer := t + 1\<rparr>;
                 w3 = w2\<lparr>heap := (heap w2)[a := (heap w2 ! a)\<lparr>interval := Some t\<rparr>]\<rparr>
             in (Inr None, w3))
          else (Inr None, w))"

definition playpause_fn :: "addr option \<Rightarrow> world \<Rightarrow> (addr option) result" where
  "playpause_fn data w =
     (case data of
        None \<Rightarrow> (Inl TypeError, w)
      | Some a \<Rightarrow>
          (case (if truthy_handle (interval (heap w ! a))
                 then handler pause_fn w else handler play_fn w) of
             (Inl e, w') \<Rightarrow> (Inl e, w')
           | (Inr u, w') \<Rightarrow> (Inr None, w')))"

text \<open>The functions \<open>next\<close>, \<open>previous\<close> and \<open>jump\<close> pass to \<open>_handler\<close>.\<close>

definition next_fn :: "addr option \<Rightarrow> world \<Rightarrow> (addr option) result" where
  "next_fn data w =
     (case data of
        None \<Rightarrow> (Inl TypeError, w)
      | Some a \<Rightarrow>
          (case (if truthy_handle (interval (heap w ! a))
                 then handler pause_fn w else (Inr (), w)) of
             (Inl e, w1) \<Rightarrow> (Inl e, w1)
           | (Inr u, w1) \<Rightarrow>
               (case reveal a (js_rem (current (heap w1 ! a) + 1) (count (heap w1 ! a))) w1 of
                  (Inl e, w2) \<Rightarrow> (Inl e, w2)
                | (Inr u2, w2) \<Rightarrow> (Inr (Some a), w2))))"

definition previous_fn :: "addr option \<Rightarrow> world \<Rightarrow> (addr option) result" where
  "previous_fn data w =
     (case data of
        None \<Rightarrow> (Inl TypeError, w)
      | Some a \<Rightarrow>
          (case (if truthy_handle (interval (heap w ! a))
                 then handler pause_fn w else (Inr (), w)) of
             (Inl e, w1) \<Rightarrow> (Inl e, w1)
           | (Inr u, w1) \<Rightarrow>
               (case reveal a
                       (js_rem (current (heap w1 ! a) + count (heap w1 ! a) - 1)
                          (count (heap w1 ! a))) w1 of
                  (Inl e, w2) \<Rightarrow> (Inl e, w2)
                | (Inr u2, w2) \<Rightarrow> (Inr (Some a), w2))))"

definition jump_fn :: "int \<Rightarrow> addr option \<Rightarrow> world \<Rightarrow> (addr option) result" where
  "jump_fn newidx data w =
     (case data of
        None \<Rightarrow> (Inl TypeError, w)
      | Some a \<Rightarrow>
          (case (if truthy_handle (interval (heap w ! a))
                 then handler pause_fn w else (Inr (), w)) of
             (Inl e, w1) \<Rightarrow> (Inl e, w1)
           | (Inr u, w1) \<Rightarrow>
               (case reveal a (js_rem newidx (count (heap w1 ! a))) w1 of
                  (Inl e, w2) \<Rightarrow> (Inl e, w2)
                | (Inr u2, w2) \<Rightarrow> (Inr (Some a), w2))))"

definition destroy_fn :: "addr option \<Rightarrow> world \<Rightarrow> (addr option) result" where
  "destroy_fn data w =
     (case data of
        None \<Rightarrow> (Inl TypeError, w)
      | Some a \<Rightarrow>
          (let w1 = (case interval (heap w ! a) of
                       None \<Rightarrow> w
                     | Some t \<Rightarrow> if t \<noteq> 0 then clearInterval t w else w);
               w2 = w1\<lparr>classes := classes w1 - {''playing''}\<rparr>;
               w3 = w2\<lparr>controls_blocks := 0\<rparr>
           in (Inr None, w3)))"

text \<open>\<open>methods.init\<close>: nothing when an object is attached, \<open>_do_initialize\<close> otherwise.\<close>

definition init :: "options \<Rightarrow> world \<Rightarrow> unit result" where
  "init opts w =
     (case attached w of
        Some a \<Rightarrow> (Inr (), w)
      | None \<Rightarrow> (Inr (), do_initialize opts w))"

text \<open>\<open>$.fn.moodboard\<close> on the container, for the eight commands of \<open>methods\<close>.\<close>

fun moodboard :: "command \<Rightarrow> world \<Rightarrow> unit result" where
  "moodboard (Init opts) w = init opts w"
| "moodboard Next w = handler next_fn w"
| "moodboard Previous w = handler previous_fn w"
| "moodboard (Jump n) w = handler (jump_fn n) w"
| "moodboard PlayPause w = handler playpause_fn w"
| "moodboard Play w = handler play_fn w"
| "moodboard Pause w = handler pause_fn w"
| "moodboard Destroy w = handler destroy_fn w"

subsection \<open>Callbacks: the load handler and the interval\<close>

text \<open>The function \<open>_do_initialize\<close> binds to \<open>window.load\<close>.\<close>

definition on_load :: "elem list \<times> addr \<Rightarrow> world \<Rightarrow> unit result" where
  "on_load h w =
     (let found = fst h;
          a = snd h;
          w1 = measure_slides found a w;
          w2 = init_slides a w1;
          w3 = (if controls (heap w2 ! a) then init_controls w2 else w2);
          w4 = w3\<lparr>attached := Some a\<rparr>
      in if autostart (heap w4 ! a) \<and> count (heap w4 ! a) > 1 then
           (case moodboard PlayPause w4 of
              (Inl e, w5) \<Rightarrow> (Inl e, w5)
            | (Inr u, w5) \<Rightarrow> (Inr (), w5\<lparr>classes := insert ''moodboard'' (classes w5)\<rparr>))
         else (Inr (), w4\<lparr>classes := insert ''moodboard'' (classes w4)\<rparr>))"

text \<open>The load event runs the bound handlers in order; a throw ends the dispatch.\<close>

fun run_handlers :: "(elem list \<times> addr) list \<Rightarrow> world \<Rightarrow> unit result" where
  "run_handlers [] w = (Inr (), w)"
| "run_handlers (h # hs) w =
     (case on_load h w of
        (Inl e, w') \<Rightarrow> (Inl e, w')
      | (Inr u, w') \<Rightarrow> run_handlers hs w')"

definition window_load :: "world \<Rightarrow> unit result" where
  "window_load w = run_handlers (load_handlers w) w"

text \<open>
  One firing of the interval with handle \<open>t\<close>; nothing runs when the interval has
  been cleared.
\<close>

definition tick :: "timer_id \<Rightarrow> world \<Rightarrow> unit result" where
  "tick t w =
     (case map_of (timers w) t of
        None \<Rightarrow> (Inr (), w)
      | Some a \<Rightarrow>
          (case reveal a (js_rem (current (heap w ! a) + 1) (count (heap w ! a))) w of
             (Inl e, w') \<Rightarrow> (Inl e, w')
           | (Inr u, w') \<Rightarrow> (Inr (), w'\<lparr>attached := Some a\<rparr>)))"

subsection \<open>Pages and runs\<close>

text \<open>
  What happens to the page: a command on the container (from a script or from a click
  on a control), a firing of an interval, the load event. An uncaught exception ends
  the handler that threw and leaves the page as it is.
\<close>

datatype event = Call command | Tick timer_id | Load

fun step :: "event \<Rightarrow> world \<Rightarrow> world" where
  "step (Call c) w = snd (moodboard c w)"
| "step (Tick t) w = snd (tick t w)"
| "step Load w = snd (window_load w)"

definition run :: "event list \<Rightarrow> world \<Rightarrow> world" where
  "run evs w = fold step evs w"

text \<open>
  A page before any call: one slide per measured size, no style assigned yet, nothing
  attached, no timer. \<open>setInterval\<close> hands out the handles 1, 2, ...
\<close>

definition plain_slide :: "int \<times> int \<Rightarrow> slide_el" where
  "plain_slide wh =
     \<lparr>el_width = fst wh, el_height = snd wh, css_width = None, css_height = None,
      css_left = None, css_top = None, css_opacity = None, css_zindex = None\<rparr>"

definition fresh_page :: "(int \<times> int) list \<Rightarrow> int \<Rightarrow> int \<Rightarrow> world" where
  "fresh_page dims w h =
     \<lparr>classes = {}, attached = None, heap = [], controls_blocks = 0,
      slide_els = map plain_slide dims, mb_width = w, mb_height = h,
      load_handlers = [], timers = [], next_timer = 1\<rparr>"

definition no_options :: options where
  "no_options =
     \<lparr>opt_width = None, opt_height = None, opt_slide_time = None,
      opt_autostart = None, opt_controls = None\<rparr>"

text \<open>
  \<open>initialised dims w h opts\<close>: the page after \<open>$('.slides').moodboard(opts)\<close> and the
  load event. \<open>board n opts\<close> is such a page with \<open>n\<close> slides of 100 by 80 pixels in
  a container of 640 by 480.
\<close>

definition initialised :: "(int \<times> int) list \<Rightarrow> int \<Rightarrow> int \<Rightarrow> options \<Rightarrow> world" where
  "initialised dims w h opts = run [Call (Init opts), Load] (fresh_page dims w h)"

definition board :: "nat \<Rightarrow> options \<Rightarrow> world" where
  "board n opts = initialised (replicate n (100, 80)) 640 480 opts"

text \<open>
  Shorthand for the states of a page of three such slides on which \<open>init\<close> was called
  twice before the load event: a slide after the layout, a data object after the
  measuring, and the page around them, which has two data objects, two load handlers
  and two control blocks.
\<close>

definition laid_slide :: "int option \<Rightarrow> int option \<Rightarrow> slide_el" where
  "laid_slide opac z =
     \<lparr>el_width = 100, el_height = 80, css_width = Some 100, css_height = Some 80,
      css_left = Some 270, css_top = Some 200, css_opacity = opac, css_zindex = z\<rparr>"

definition measured_data :: "int \<Rightarrow> timer_id option \<Rightarrow> data_obj" where
  "measured_data c h =
     \<lparr>count = 3, current = c, interval = h, slides = [0, 1, 2], widths = [100, 100, 100],
      heights = [80, 80, 80], width = Some 640, height = Some 480, slide_time = 2500,
      autostart = True, controls = True\<rparr>"

definition twin_page ::
  "string set \<Rightarrow> addr \<Rightarrow> data_obj list \<Rightarrow> slide_el list \<Rightarrow> (timer_id \<times> addr) list \<Rightarrow> world" where
  "twin_page cls a hp els tms =
     \<lparr>classes = cls, attached = Some a, heap = hp, controls_blocks = 2, slide_els = els,
      mb_width = 640, mb_height = 480, load_handlers = [([0, 1, 2], 0), ([0, 1, 2], 1)],
      timers = tms, next_timer = 3\<rparr>"

subsection \<open>Observations\<close>

text \<open>\<open>data.current\<close> and \<open>data.interval\<close> of the attached object.\<close>

definition current_index :: "world \<Rightarrow> int option" where
  "current_index w =
     (case attached w of None \<Rightarrow> None | Some a \<Rightarrow> Some (current (heap w ! a)))"

definition timer_handle :: "world \<Rightarrow> timer_id option" where
  "timer_handle w =
     (case attached w of None \<Rightarrow> None | Some a \<Rightarrow> interval (heap w ! a))"

text \<open>Slide \<open>c\<close> has opacity 1 and every other slide has opacity 0.\<close>

definition one_revealed :: "nat \<Rightarrow> slide_el list \<Rightarrow> bool" where
  "one_revealed c els \<longleftrightarrow>
     c < length els \<and>
     list_all (\<lambda>j. css_opacity (els ! j) = Some (if j = c then 1 else 0)) [0..<length els]"

text \<open>
  Stacking. \<open>unstacked\<close>: no slide has been given a z-index (the state the layout
  leaves). \<open>raised c\<close>: slide \<open>c\<close> has the raised value 101, and every other slide has
  the lowered value 100 or, when it has never been revealed, none.
\<close>

definition unstacked :: "slide_el list \<Rightarrow> bool" where
  "unstacked els \<longleftrightarrow> list_all (\<lambda>j. css_zindex (els ! j) = None) [0..<length els]"

definition raised :: "nat \<Rightarrow> slide_el list \<Rightarrow> bool" where
  "raised c els \<longleftrightarrow>
     list_all (\<lambda>j. css_zindex (els ! j) = (if j = c then Some 101 else Some 100) \<or>
                    (css_zindex (els ! j) = None \<and> j \<noteq> c)) [0..<length els]"

text \<open>
  \<open>current_revealed r w\<close>: the slide at the current index has opacity 1 and every other
  slide has opacity 0; and the stacking is \<open>raised\<close> at the current index when \<open>r\<close>
  holds (a reveal has run), \<open>unstacked\<close> otherwise.
\<close>

definition current_revealed :: "bool \<Rightarrow> world \<Rightarrow> bool" where
  "current_revealed r w \<longleftrightarrow>
     (case current_index w of
        None \<Rightarrow> False
      | Some c \<Rightarrow>
          0 \<le> c \<and> one_revealed (nat c) (slide_els w) \<and>
          (if r then raised (nat c) (slide_els w) else unstacked (slide_els w)))"

text \<open>
  The container size \<open>_init_slides\<close> works with: the configured value, or the measured
  one when the configured value is falsy (\<open>null\<close> or 0).
\<close>

definition resolved :: "int option \<Rightarrow> int \<Rightarrow> int" where
  "resolved configured measured = (if falsy_num configured then measured else to_number configured)"

text \<open>
  A page in the middle of the load handler: two slides, one larger than the container,
  measured and not yet laid out.
\<close>

definition layout_example :: world where
  "layout_example =
     measure_slides [0, 1] 0
       (do_initialize no_options (fresh_page [(100, 80), (800, 600)] 640 480))"

text \<open>
  Events of a slideshow in use. \<open>steady\<close>: any command but \<open>destroy\<close>, with a jump
  index that is not negative, or a firing of an interval. \<open>live\<close>: any command but
  \<open>destroy\<close>, with any jump index, or a firing of an interval. The load event has
  happened by then.
\<close>

fun steady :: "event \<Rightarrow> bool" where
  "steady (Call (Jump n)) = (0 \<le> n)"
| "steady (Call Destroy) = False"
| "steady (Call c) = True"
| "steady (Tick t) = True"
| "steady Load = False"

fun live :: "event \<Rightarrow> bool" where
  "live (Call Destroy) = False"
| "live (Call c) = True"
| "live (Tick t) = True"
| "live Load = False"

text \<open>
  Events that call \<open>_reveal\<close>: \<open>next\<close>, \<open>previous\<close> and \<open>jump\<close>, and a firing of an
  interval that is running. \<open>revealed_in evs w\<close>: some event of \<open>evs\<close>, run from \<open>w\<close>,
  is one of these.
\<close>

fun revealing :: "event \<Rightarrow> world \<Rightarrow> bool" where
  "revealing (Call Next) w = True"
| "revealing (Call Previous) w = True"
| "revealing (Call (Jump n)) w = True"
| "revealing (Call c) w = False"
| "revealing (Tick t) w = (map_of (timers w) t \<noteq> None)"
| "revealing Load w = False"

fun revealed_in :: "event list \<Rightarrow> world \<Rightarrow> bool" where
  "revealed_in [] w = False"
| "revealed_in (ev # evs) w = (revealing ev w \<or> revealed_in evs (step ev w))"

subsection \<open>The common shape of the navigation commands\<close>

text \<open>
  \<open>next\<close>, \<open>previous\<close> and \<open>jump\<close> differ only in the index they reveal: each
  pauses when playing, reveals an index computed from the data object as it is after
  the pause, and returns \<open>data\<close>. The proofs treat them once, through \<open>navigate\<close>.
\<close>

definition navigate ::
  "(data_obj \<Rightarrow> int option) \<Rightarrow> addr option \<Rightarrow> world \<Rightarrow> (addr option) result" where
  "navigate target data w =
     (case data of
        None \<Rightarrow> (Inl TypeError, w)
      | Some a \<Rightarrow>
          (case (if truthy_handle (interval (heap w ! a))
                 then handler pause_fn w else (Inr (), w)) of
             (Inl e, w1) \<Rightarrow> (Inl e, w1)
           | (Inr u, w1) \<Rightarrow>
               (case reveal a (target (heap w1 ! a)) w1 of
                  (Inl e, w2) \<Rightarrow> (Inl e, w2)
                | (Inr u2, w2) \<Rightarrow> (Inr (Some a), w2))))"

subsection \<open>Invariants of an initialised page\<close>

text \<open>
  \<open>page_ok a w\<close>: the object at \<open>a\<close> is the attached one; its slides are the slides of the
  page, its count their number, its current index within range (0 when there is no
  slide); and it holds a handle exactly when that interval is the one running and the
  container is marked \<open>playing\<close>.
\<close>

definition page_ok :: "addr \<Rightarrow> world \<Rightarrow> bool" where
  "page_ok a w \<longleftrightarrow>
     attached w = Some a \<and> a < length (heap w) \<and>
     slides (heap w ! a) = [0..<length (slide_els w)] \<and>
     count (heap w ! a) = int (length (slide_els w)) \<and>
     0 \<le> current (heap w ! a) \<and>
     (current (heap w ! a) < count (heap w ! a) \<or> current (heap w ! a) = 0) \<and>
     next_timer w \<noteq> 0 \<and>
     (case interval (heap w ! a) of
        None \<Rightarrow> timers w = [] \<and> ''playing'' \<notin> classes w
      | Some t \<Rightarrow> t \<noteq> 0 \<and> timers w = [(t, a)] \<and> ''playing'' \<in> classes w)"

text \<open>
  \<open>shown a w\<close>: the slide at the current index of the object at \<open>a\<close> is the one
  revealed, with either stacking. \<open>stack_inv r a w\<close>: which of the two it is.
\<close>

definition stacked :: "nat \<Rightarrow> slide_el list \<Rightarrow> bool" where
  "stacked c els \<longleftrightarrow> unstacked els \<or> raised c els"

definition shown :: "addr \<Rightarrow> world \<Rightarrow> bool" where
  "shown a w \<longleftrightarrow>
     one_revealed (nat (current (heap w ! a))) (slide_els w) \<and>
     stacked (nat (current (heap w ! a))) (slide_els w)"

definition stack_inv :: "bool \<Rightarrow> addr \<Rightarrow> world \<Rightarrow> bool" where
  "stack_inv r a w \<longleftrightarrow>
     (if r then raised (nat (current (heap w ! a))) (slide_els w) else unstacked (slide_els w))"

section \<open>Invariants are kept\<close>

subsection \<open>Commands and ticks keep \<open>page_ok\<close>\<close>

lemma next_fn_navigate: "next_fn = navigate (\<lambda>d. js_rem (current d + 1) (count d))"
  by (intro ext) (simp add: next_fn_def navigate_def)

lemma previous_fn_navigate:
  "previous_fn = navigate (\<lambda>d. js_rem (current d + count d - 1) (count d))"
  by (intro ext) (simp add: previous_fn_def navigate_def)

lemma jump_fn_navigate: "jump_fn n = navigate (\<lambda>d. js_rem n (count d))"
  by (intro ext) (simp add: jump_fn_def navigate_def)

lemma js_rem_nonneg: "0 \<le> a \<Longrightarrow> 0 < n \<Longrightarrow> js_rem a n = Some (a mod n)"
  by (cases "a = 0") (auto simp: js_rem_def)

lemma list_all_upt: "list_all P [0..<n] \<longleftrightarrow> (\<forall>j<n. P j)"
  by (auto simp: list_all_iff)

lemma handler_pause_ok:
  assumes "page_ok a w"
  shows "fst (handler pause_fn w) = Inr ()"
    and "page_ok a (snd (handler pause_fn w))"
    and "interval (heap (snd (handler pause_fn w)) ! a) = None"
    and "timers (snd (handler pause_fn w)) = []"
    and "slide_els (snd (handler pause_fn w)) = slide_els w"
    and "current (heap (snd (handler pause_fn w)) ! a) = current (heap w ! a)"
  using assms
  by (auto simp: page_ok_def handler_def pause_fn_def clearInterval_def Let_def split: option.splits)

lemma handler_play_ok:
  assumes "page_ok a w"
  shows "fst (handler play_fn w) = Inr ()"
    and "page_ok a (snd (handler play_fn w))"
    and "interval (heap (snd (handler play_fn w)) ! a) \<noteq> None"
    and "slide_els (snd (handler play_fn w)) = slide_els w"
    and "current (heap (snd (handler play_fn w)) ! a) = current (heap w ! a)"
  using assms
  by (auto simp: page_ok_def handler_def play_fn_def truthy_handle_def Let_def split: option.splits)

lemma truthy_handle_ok: "page_ok a w \<Longrightarrow> truthy_handle (interval (heap w ! a)) \<longleftrightarrow> interval (heap w ! a) \<noteq> None"
  by (auto simp: page_ok_def truthy_handle_def split: option.splits)

lemma handler_playpause_ok:
  assumes "page_ok a w"
  shows "fst (handler playpause_fn w) = Inr ()"
    and "page_ok a (snd (handler playpause_fn w))"
    and "slide_els (snd (handler playpause_fn w)) = slide_els w"
    and "current (heap (snd (handler playpause_fn w)) ! a) = current (heap w ! a)"
proof -
  have att: "attached w = Some a" using assms by (simp add: page_ok_def)
  show "fst (handler playpause_fn w) = Inr ()"
    using handler_pause_ok(1)[OF assms] handler_play_ok(1)[OF assms] att
    by (auto simp: handler_def[of playpause_fn] playpause_fn_def split: prod.splits sum.splits)
  show "page_ok a (snd (handler playpause_fn w))"
    using handler_pause_ok(1,2)[OF assms] handler_play_ok(1,2)[OF assms] att
    by (auto simp: handler_def[of playpause_fn] playpause_fn_def split: prod.splits sum.splits)
  show "slide_els (snd (handler playpause_fn w)) = slide_els w"
    using handler_pause_ok(1,5)[OF assms] handler_play_ok(1,4)[OF assms] att
    by (auto simp: handler_def[of playpause_fn] playpause_fn_def split: prod.splits sum.splits)
  show "current (heap (snd (handler playpause_fn w)) ! a) = current (heap w ! a)"
    using handler_pause_ok(1,6)[OF assms] handler_play_ok(1,5)[OF assms] att
    by (auto simp: handler_def[of playpause_fn] playpause_fn_def split: prod.splits sum.splits)
qed

lemma reveal_page_ok:
  assumes "page_ok a w"
  shows "page_ok a (snd (reveal a t w))"
  using assms
  by (auto simp: page_ok_def reveal_def js_index_def css_show_def to_number_def Let_def
      split: option.splits if_splits)

lemma reveal_frame:
  shows "timers (snd (reveal a t w)) = timers w"
    and "classes (snd (reveal a t w)) = classes w"
    and "attached (snd (reveal a t w)) = attached w"
  by (auto simp: reveal_def js_index_def css_show_def Let_def split: option.splits)


lemma page_ok_attach: "page_ok a w \<Longrightarrow> page_ok a (w\<lparr>attached := Some a\<rparr>)"
  by (auto simp: page_ok_def split: option.splits)

lemma handler_navigate:
  assumes att: "attached w = Some a"
    and p: "truthy_handle (interval (heap w ! a)) \<Longrightarrow> fst (handler pause_fn w) = Inr ()"
    and w1: "w1 = (if truthy_handle (interval (heap w ! a)) then snd (handler pause_fn w) else w)"
  shows "handler (navigate target) w =
     (case reveal a (target (heap w1 ! a)) w1 of
        (Inl e, w2) \<Rightarrow> (Inl e, w2)
      | (Inr u, w2) \<Rightarrow> (Inr (), w2\<lparr>attached := Some a\<rparr>))"
proof (cases "truthy_handle (interval (heap w ! a))")
  case True
  obtain r v where rv: "handler pause_fn w = (r, v)" by (cases "handler pause_fn w")
  with p True have r: "r = Inr ()" by simp
  show ?thesis using True att rv r w1
    by (simp add: handler_def[of "navigate target"] navigate_def split: prod.splits sum.splits)
next
  case False
  then show ?thesis using att w1
    by (simp add: handler_def[of "navigate target"] navigate_def split: prod.splits sum.splits)
qed

lemma reveal_result_page_ok:
  assumes "page_ok a w"
  shows "page_ok a (snd (case reveal a t w of
        (Inl e, w2) \<Rightarrow> (Inl e, w2)
      | (Inr u, w2) \<Rightarrow> (Inr (), w2\<lparr>attached := Some a\<rparr>)))"
proof (cases "reveal a t w")
  case (Pair r v)
  have ok: "page_ok a v" using reveal_page_ok[OF assms, of t] Pair by simp
  show ?thesis using Pair ok page_ok_attach[OF ok] by (cases r) simp_all
qed

lemma navigate_page_ok:
  assumes "page_ok a w"
  shows "page_ok a (snd (handler (navigate target) w))"
proof -
  have att: "attached w = Some a" using assms by (simp add: page_ok_def)
  define w1 where "w1 = (if truthy_handle (interval (heap w ! a)) then snd (handler pause_fn w) else w)"
  have ok1: "page_ok a w1" using assms handler_pause_ok(2)[OF assms] by (simp add: w1_def)
  show ?thesis
    unfolding handler_navigate[OF att handler_pause_ok(1)[OF assms] w1_def]
    by (rule reveal_result_page_ok[OF ok1])
qed

lemma tick_page_ok:
  assumes "page_ok a w"
  shows "page_ok a (snd (tick t w))"
proof (cases "map_of (timers w) t")
  case None
  then show ?thesis using assms by (simp add: tick_def)
next
  case (Some b)
  have b: "b = a" using Some assms
    by (auto simp: page_ok_def split: option.splits if_splits)
  show ?thesis using reveal_result_page_ok[OF assms] Some b by (simp add: tick_def)
qed

lemma init_attached: "attached w = Some a \<Longrightarrow> init opts w = (Inr (), w)"
  by (simp add: init_def)

lemma step_page_ok:
  assumes "page_ok a w" and "live ev"
  shows "page_ok a (step ev w)"
proof (cases ev)
  case (Call c)
  have att: "attached w = Some a" using assms by (simp add: page_ok_def)
  show ?thesis
  proof (cases c)
    case (Init opts)
    then show ?thesis using Call assms att by (simp add: init_attached)
  next
    case Next
    then show ?thesis using Call navigate_page_ok[OF assms(1)] by (simp add: next_fn_navigate)
  next
    case Previous
    then show ?thesis using Call navigate_page_ok[OF assms(1)] by (simp add: previous_fn_navigate)
  next
    case (Jump n)
    then show ?thesis using Call navigate_page_ok[OF assms(1)] by (simp add: jump_fn_navigate)
  next
    case PlayPause
    then show ?thesis using Call handler_playpause_ok(2)[OF assms(1)] by simp
  next
    case Play
    then show ?thesis using Call handler_play_ok(2)[OF assms(1)] by simp
  next
    case Pause
    then show ?thesis using Call handler_pause_ok(2)[OF assms(1)] by simp
  next
    case Destroy
    then show ?thesis using Call assms(2) by simp
  qed
next
  case (Tick t)
  then show ?thesis using tick_page_ok[OF assms(1)] by simp
next
  case Load
  then show ?thesis using assms(2) by simp
qed

lemma run_page_ok:
  assumes "page_ok a w" and "list_all live evs"
  shows "page_ok a (run evs w)"
  using assms
proof (induction evs arbitrary: w)
  case Nil
  then show ?case by (simp add: run_def)
next
  case (Cons ev evs)
  have "page_ok a (step ev w)" using Cons.prems by (simp add: step_page_ok)
  then have "page_ok a (run evs (step ev w))" using Cons by simp
  then show ?case by (simp add: run_def)
qed


lemma reveal_in_range:
  assumes ok: "page_ok a w" and k: "0 \<le> k" "k < count (heap w ! a)"
  shows "reveal a (Some k) w =
     (Inr (), w\<lparr>slide_els :=
        ((slide_els w)[nat (current (heap w ! a)) :=
            (slide_els w ! nat (current (heap w ! a)))\<lparr>css_zindex := Some 100, css_opacity := Some 0\<rparr>])
          [nat k := (((slide_els w)[nat (current (heap w ! a)) :=
            (slide_els w ! nat (current (heap w ! a)))\<lparr>css_zindex := Some 100, css_opacity := Some 0\<rparr>]) ! nat k)
              \<lparr>css_zindex := Some 101, css_opacity := Some 1\<rparr>],
        heap := (heap w)[a := (heap w ! a)\<lparr>current := k\<rparr>]\<rparr>)"
proof -
  let ?n = "length (slide_els w)"
  have sl: "slides (heap w ! a) = [0..<?n]" and cnt: "count (heap w ! a) = int ?n"
    and c0: "0 \<le> current (heap w ! a)"
    and c1: "current (heap w ! a) < count (heap w ! a) \<or> current (heap w ! a) = 0"
    using ok by (auto simp: page_ok_def)
  have cn: "current (heap w ! a) < int ?n" using c1 k cnt by auto
  have i0: "js_index (slides (heap w ! a)) (Some (current (heap w ! a))) = Some (nat (current (heap w ! a)))"
    using sl c0 cn by (simp add: js_index_def)
  have i1: "js_index (slides (heap w ! a)) (Some k) = Some (nat k)"
    using sl k cnt by (simp add: js_index_def)
  show ?thesis
    by (simp add: reveal_def i0 i1 css_show_def to_number_def Let_def)
qed

lemma reveal_shown:
  assumes ok: "page_ok a w" and sh: "shown a w" and k: "0 \<le> k" "k < count (heap w ! a)"
  shows "shown a (snd (reveal a (Some k) w))"
    and "raised (nat k) (slide_els (snd (reveal a (Some k) w)))"
proof -
  let ?n = "length (slide_els w)"
  let ?c = "nat (current (heap w ! a))"
  have a: "a < length (heap w)" and cnt: "count (heap w ! a) = int ?n"
    using ok by (simp_all add: page_ok_def)
  have kn: "nat k < ?n" using k cnt by simp
  have op: "\<forall>j<?n. css_opacity (slide_els w ! j) = Some (if j = ?c then 1 else 0)"
    and cn: "?c < ?n"
    using sh by (simp_all add: shown_def one_revealed_def list_all_upt)
  have st: "(\<forall>j<?n. css_zindex (slide_els w ! j) = None) \<or>
      (\<forall>j<?n. css_zindex (slide_els w ! j) = (if j = ?c then Some 101 else Some 100) \<or>
                    (css_zindex (slide_els w ! j) = None \<and> j \<noteq> ?c))"
    using sh by (simp add: shown_def stacked_def unstacked_def raised_def list_all_upt)
  have one: "one_revealed (nat k) (slide_els (snd (reveal a (Some k) w)))"
    using a kn cn op k
    by (simp add: reveal_in_range[OF ok k] one_revealed_def list_all_upt nth_list_update)
  show up: "raised (nat k) (slide_els (snd (reveal a (Some k) w)))"
    using a kn cn st k
    by (auto simp add: reveal_in_range[OF ok k] raised_def list_all_upt nth_list_update)
  have "current (heap (snd (reveal a (Some k) w)) ! a) = k"
    using a by (simp add: reveal_in_range[OF ok k])
  then show "shown a (snd (reveal a (Some k) w))"
    using one up by (simp add: shown_def stacked_def)
qed


lemma shown_cong:
  assumes "shown a w" and "slide_els w' = slide_els w"
    and "current (heap w' ! a) = current (heap w ! a)"
  shows "shown a w'"
  using assms by (simp add: shown_def)

lemma shown_in_range:
  assumes "page_ok a w" and "shown a w"
  shows "current (heap w ! a) < count (heap w ! a)"
  using assms by (auto simp: page_ok_def shown_def one_revealed_def)

lemma reveal_result_shown:
  assumes ok: "page_ok a w" and sh: "shown a w" and k: "0 \<le> k" "k < count (heap w ! a)"
  shows "shown a (snd (case reveal a (Some k) w of
        (Inl e, w2) \<Rightarrow> (Inl e, w2)
      | (Inr u, w2) \<Rightarrow> (Inr (), w2\<lparr>attached := Some a\<rparr>)))"
proof -
  obtain v where v: "reveal a (Some k) w = (Inr (), v)"
    using reveal_in_range[OF ok k] by simp
  have "shown a v" using reveal_shown(1)[OF ok sh k] v by simp
  then have "shown a (v\<lparr>attached := Some a\<rparr>)" by (simp add: shown_def)
  then show ?thesis using v by simp
qed

lemma navigate_shown:
  assumes ok: "page_ok a w" and sh: "shown a w"
    and tgt: "\<And>d. 0 \<le> current d \<Longrightarrow> current d < count d \<Longrightarrow>
                \<exists>k. target d = Some k \<and> 0 \<le> k \<and> k < count d"
  shows "shown a (snd (handler (navigate target) w))"
proof -
  have att: "attached w = Some a" using ok by (simp add: page_ok_def)
  define w1 where "w1 = (if truthy_handle (interval (heap w ! a)) then snd (handler pause_fn w) else w)"
  have ok1: "page_ok a w1" using ok handler_pause_ok(2)[OF ok] by (simp add: w1_def)
  have sh1: "shown a w1"
    using sh handler_pause_ok(5,6)[OF ok] by (auto simp: w1_def intro: shown_cong)
  have "0 \<le> current (heap w1 ! a)" using ok1 by (simp add: page_ok_def)
  then obtain k where k: "target (heap w1 ! a) = Some k" "0 \<le> k" "k < count (heap w1 ! a)"
    using tgt shown_in_range[OF ok1 sh1] by blast
  show ?thesis
    unfolding handler_navigate[OF att handler_pause_ok(1)[OF ok] w1_def] k(1)
    by (rule reveal_result_shown[OF ok1 sh1 k(2,3)])
qed

lemma next_target:
  assumes "0 \<le> current d" and "current d < count d"
  shows "\<exists>k. js_rem (current d + 1) (count d) = Some k \<and> 0 \<le> k \<and> k < count d"
  using assms by (simp add: js_rem_nonneg)

lemma previous_target:
  assumes "0 \<le> current d" and "current d < count d"
  shows "\<exists>k. js_rem (current d + count d - 1) (count d) = Some k \<and> 0 \<le> k \<and> k < count d"
  using assms by (simp add: js_rem_nonneg)

lemma jump_target:
  assumes "0 \<le> n" and "0 \<le> current d" and "current d < count d"
  shows "\<exists>k. js_rem n (count d) = Some k \<and> 0 \<le> k \<and> k < count d"
  using assms by (simp add: js_rem_nonneg)

lemma tick_shown:
  assumes ok: "page_ok a w" and sh: "shown a w"
  shows "shown a (snd (tick t w))"
proof (cases "map_of (timers w) t")
  case None
  then show ?thesis using sh by (simp add: tick_def)
next
  case (Some b)
  have b: "b = a" using Some ok
    by (auto simp: page_ok_def split: option.splits if_splits)
  have c0: "0 \<le> current (heap w ! a)" using ok by (simp add: page_ok_def)
  obtain k where k: "js_rem (current (heap w ! a) + 1) (count (heap w ! a)) = Some k"
      "0 \<le> k" "k < count (heap w ! a)"
    using next_target[OF c0 shown_in_range[OF ok sh]] by blast
  show ?thesis using reveal_result_shown[OF ok sh k(2,3)] Some b k(1) by (simp add: tick_def)
qed

lemma step_shown:
  assumes ok: "page_ok a w" and sh: "shown a w" and "steady ev"
  shows "shown a (step ev w)"
proof (cases ev)
  case (Call c)
  have att: "attached w = Some a" using ok by (simp add: page_ok_def)
  show ?thesis
  proof (cases c)
    case (Init opts)
    then show ?thesis using Call sh att by (simp add: init_attached)
  next
    case Next
    then show ?thesis using Call navigate_shown[OF ok sh next_target] by (simp add: next_fn_navigate)
  next
    case Previous
    then show ?thesis using Call navigate_shown[OF ok sh previous_target]
      by (simp add: previous_fn_navigate)
  next
    case (Jump n)
    then have "0 \<le> n" using Call assms(3) by simp
    then show ?thesis using Call Jump navigate_shown[OF ok sh jump_target]
      by (simp add: jump_fn_navigate)
  next
    case PlayPause
    then show ?thesis using Call shown_cong[OF sh handler_playpause_ok(3,4)[OF ok]] by simp
  next
    case Play
    then show ?thesis using Call shown_cong[OF sh handler_play_ok(4,5)[OF ok]] by simp
  next
    case Pause
    then show ?thesis using Call shown_cong[OF sh handler_pause_ok(5,6)[OF ok]] by simp
  next
    case Destroy
    then show ?thesis using Call assms(3) by simp
  qed
next
  case (Tick t)
  then show ?thesis using tick_shown[OF ok sh] by simp
next
  case Load
  then show ?thesis using assms(3) by simp
qed

lemma steady_live: "steady ev \<Longrightarrow> live ev"
  by (cases ev rule: steady.cases) simp_all

lemma run_shown:
  assumes "page_ok a w" and "shown a w" and "list_all steady evs"
  shows "page_ok a (run evs w) \<and> shown a (run evs w)"
  using assms
proof (induction evs arbitrary: w)
  case Nil
  then show ?case by (simp add: run_def)
next
  case (Cons ev evs)
  have "page_ok a (step ev w)" using Cons.prems by (simp add: step_page_ok steady_live)
  moreover have "shown a (step ev w)" using Cons.prems by (simp add: step_shown)
  ultimately have "page_ok a (run evs (step ev w)) \<and> shown a (run evs (step ev w))"
    using Cons by simp
  then show ?case by (simp add: run_def)
qed

subsection \<open>The stacking order follows the reveals\<close>

lemma stack_inv_cong:
  assumes "stack_inv r a w" and "slide_els w' = slide_els w"
    and "current (heap w' ! a) = current (heap w ! a)"
  shows "stack_inv r a w'"
  using assms by (simp add: stack_inv_def)

lemma reveal_result_raised:
  assumes ok: "page_ok a w" and sh: "shown a w" and k: "0 \<le> k" "k < count (heap w ! a)"
  shows "stack_inv True a (snd (case reveal a (Some k) w of
        (Inl e, w2) \<Rightarrow> (Inl e, w2)
      | (Inr u, w2) \<Rightarrow> (Inr (), w2\<lparr>attached := Some a\<rparr>)))"
proof -
  have a: "a < length (heap w)" using ok by (simp add: page_ok_def)
  obtain v where v: "reveal a (Some k) w = (Inr (), v)"
    using reveal_in_range[OF ok k] by simp
  have "raised (nat k) (slide_els v)" using reveal_shown(2)[OF ok sh k] v by simp
  moreover have "current (heap (snd (reveal a (Some k) w)) ! a) = k"
    using a by (simp add: reveal_in_range[OF ok k])
  then have "current (heap v ! a) = k" using v by simp
  ultimately have "stack_inv True a (v\<lparr>attached := Some a\<rparr>)" by (simp add: stack_inv_def)
  then show ?thesis using v by simp
qed

lemma navigate_raised:
  assumes ok: "page_ok a w" and sh: "shown a w"
    and tgt: "\<And>d. 0 \<le> current d \<Longrightarrow> current d < count d \<Longrightarrow>
                \<exists>k. target d = Some k \<and> 0 \<le> k \<and> k < count d"
  shows "stack_inv True a (snd (handler (navigate target) w))"
proof -
  have att: "attached w = Some a" using ok by (simp add: page_ok_def)
  define w1 where "w1 = (if truthy_handle (interval (heap w ! a)) then snd (handler pause_fn w) else w)"
  have ok1: "page_ok a w1" using ok handler_pause_ok(2)[OF ok] by (simp add: w1_def)
  have sh1: "shown a w1"
    using sh handler_pause_ok(5,6)[OF ok] by (auto simp: w1_def intro: shown_cong)
  have "0 \<le> current (heap w1 ! a)" using ok1 by (simp add: page_ok_def)
  then obtain k where k: "target (heap w1 ! a) = Some k" "0 \<le> k" "k < count (heap w1 ! a)"
    using tgt shown_in_range[OF ok1 sh1] by blast
  show ?thesis
    unfolding handler_navigate[OF att handler_pause_ok(1)[OF ok] w1_def] k(1)
    by (rule reveal_result_raised[OF ok1 sh1 k(2,3)])
qed

lemma tick_stack:
  assumes ok: "page_ok a w" and sh: "shown a w" and st: "stack_inv r a w"
  shows "stack_inv (r \<or> map_of (timers w) t \<noteq> None) a (snd (tick t w))"
proof (cases "map_of (timers w) t")
  case None
  then show ?thesis using st by (simp add: tick_def)
next
  case (Some b)
  have b: "b = a" using Some ok
    by (auto simp: page_ok_def split: option.splits if_splits)
  have c0: "0 \<le> current (heap w ! a)" using ok by (simp add: page_ok_def)
  obtain k where k: "js_rem (current (heap w ! a) + 1) (count (heap w ! a)) = Some k"
      "0 \<le> k" "k < count (heap w ! a)"
    using next_target[OF c0 shown_in_range[OF ok sh]] by blast
  show ?thesis
    using reveal_result_raised[OF ok sh k(2,3)] Some b k(1) by (simp add: tick_def)
qed

lemma step_stack:
  assumes ok: "page_ok a w" and sh: "shown a w" and "steady ev" and st: "stack_inv r a w"
  shows "stack_inv (r \<or> revealing ev w) a (step ev w)"
proof (cases ev)
  case (Call c)
  have att: "attached w = Some a" using ok by (simp add: page_ok_def)
  show ?thesis
  proof (cases c)
    case (Init opts)
    then show ?thesis using Call st att by (simp add: init_attached)
  next
    case Next
    then show ?thesis using Call navigate_raised[OF ok sh next_target]
      by (simp add: next_fn_navigate)
  next
    case Previous
    then show ?thesis using Call navigate_raised[OF ok sh previous_target]
      by (simp add: previous_fn_navigate)
  next
    case (Jump n)
    then have "0 \<le> n" using Call assms(3) by simp
    then show ?thesis using Call Jump navigate_raised[OF ok sh jump_target]
      by (simp add: jump_fn_navigate)
  next
    case PlayPause
    then show ?thesis using Call stack_inv_cong[OF st handler_playpause_ok(3,4)[OF ok]] by simp
  next
    case Play
    then show ?thesis using Call stack_inv_cong[OF st handler_play_ok(4,5)[OF ok]] by simp
  next
    case Pause
    then show ?thesis using Call stack_inv_cong[OF st handler_pause_ok(5,6)[OF ok]] by simp
  next
    case Destroy
    then show ?thesis using Call assms(3) by simp
  qed
next
  case (Tick t)
  then show ?thesis using tick_stack[OF ok sh st] by simp
next
  case Load
  then show ?thesis using assms(3) by simp
qed

lemma run_stack:
  assumes "page_ok a w" and "shown a w" and "list_all steady evs" and "stack_inv r a w"
  shows "stack_inv (r \<or> revealed_in evs w) a (run evs w)"
  using assms
proof (induction evs arbitrary: w r)
  case Nil
  then show ?case by (simp add: run_def)
next
  case (Cons ev evs)
  have ok: "page_ok a (step ev w)" using Cons.prems by (simp add: step_page_ok steady_live)
  have sh: "shown a (step ev w)" using Cons.prems by (simp add: step_shown)
  have st: "stack_inv (r \<or> revealing ev w) a (step ev w)"
    using Cons.prems by (simp add: step_stack)
  have "stack_inv ((r \<or> revealing ev w) \<or> revealed_in evs (step ev w)) a (run evs (step ev w))"
    using Cons.IH[OF ok sh _ st] Cons.prems(3) by simp
  then show ?case by (simp add: run_def disj_assoc)
qed

subsection \<open>Initialisation establishes the invariants\<close>

lemma measure_slides_eq:
  assumes "a < length (heap w)"
  shows "measure_slides es a w =
     w\<lparr>heap := (heap w)[a := (heap w ! a)
        \<lparr>slides := slides (heap w ! a) @ es,
         heights := heights (heap w ! a) @ map (\<lambda>e. el_height (slide_els w ! e)) es,
         widths := widths (heap w ! a) @ map (\<lambda>e. el_width (slide_els w ! e)) es\<rparr>]\<rparr>"
  using assms
proof (induction es arbitrary: w)
  case Nil
  then show ?case by simp
next
  case (Cons e es)
  then show ?case by (simp add: Let_def)
qed

lemma fold_layout_slide:
  assumes "m \<le> length (slides d)" and "distinct (slides d)"
    and "\<forall>e\<in>set (slides d). e < length els"
  shows "length (fold (layout_slide d) [0..<m] els) = length els \<and>
     (\<forall>i<m. fold (layout_slide d) [0..<m] els ! (slides d ! i) = slide_css d i (els ! (slides d ! i))) \<and>
     (\<forall>e<length els. e \<notin> set (take m (slides d)) \<longrightarrow> fold (layout_slide d) [0..<m] els ! e = els ! e)"
  using assms(1)
proof (induction m)
  case 0
  then show ?case by simp
next
  case (Suc m)
  let ?X = "fold (layout_slide d) [0..<m] els"
  let ?e = "slides d ! m"
  have m: "m < length (slides d)" using Suc.prems by simp
  have IH: "length ?X = length els"
      "\<forall>i<m. ?X ! (slides d ! i) = slide_css d i (els ! (slides d ! i))"
      "\<forall>e<length els. e \<notin> set (take m (slides d)) \<longrightarrow> ?X ! e = els ! e"
    using Suc by simp_all
  have e: "?e < length els" using assms(3) m by simp
  have notin: "?e \<notin> set (take m (slides d))"
  proof
    assume "?e \<in> set (take m (slides d))"
    then obtain i where i: "i < m" "take m (slides d) ! i = ?e"
      using m by (auto simp: in_set_conv_nth)
    then have "slides d ! i = slides d ! m" by simp
    then have "i = m" using assms(2) m i(1) by (simp add: nth_eq_iff_index_eq)
    then show False using i(1) by simp
  qed
  have step: "fold (layout_slide d) [0..<Suc m] els = ?X[?e := slide_css d m (els ! ?e)]"
    using IH(3) e notin by (simp add: layout_slide_def Let_def)
  have ne: "\<And>i. i < m \<Longrightarrow> slides d ! i \<noteq> ?e"
    using assms(2) m by (simp add: nth_eq_iff_index_eq)
  have t: "take (Suc m) (slides d) = take m (slides d) @ [?e]"
    using m by (simp add: take_Suc_conv_app_nth)
  have p1: "length (?X[?e := slide_css d m (els ! ?e)]) = length els"
    using IH(1) by simp
  have p2: "?X[?e := slide_css d m (els ! ?e)] ! (slides d ! i) = slide_css d i (els ! (slides d ! i))"
    if "i < Suc m" for i
  proof (cases "i = m")
    case True
    then show ?thesis using IH(1) e by simp
  next
    case False
    then have "i < m" using that by simp
    then show ?thesis using IH(2) ne[of i] by (simp add: nth_list_update)
  qed
  have p3: "?X[?e := slide_css d m (els ! ?e)] ! x = els ! x"
    if "x < length els" "x \<notin> set (take (Suc m) (slides d))" for x
  proof -
    have "x \<noteq> ?e" "x \<notin> set (take m (slides d))" using that(2) t by auto
    then show ?thesis using IH(3) that(1) by (simp add: nth_list_update)
  qed
  show ?case
    unfolding step using p1 p2 p3 by blast
qed


lemma init_slides_data:
  assumes "a < length (heap w)"
  shows "slides (heap (init_slides a w) ! a) = slides (heap w ! a)"
    and "widths (heap (init_slides a w) ! a) = widths (heap w ! a)"
    and "heights (heap (init_slides a w) ! a) = heights (heap w ! a)"
    and "count (heap (init_slides a w) ! a) = count (heap w ! a)"
    and "current (heap (init_slides a w) ! a) = current (heap w ! a)"
    and "interval (heap (init_slides a w) ! a) = interval (heap w ! a)"
    and "autostart (heap (init_slides a w) ! a) = autostart (heap w ! a)"
    and "controls (heap (init_slides a w) ! a) = controls (heap w ! a)"
    and "width (heap (init_slides a w) ! a) =
          (if falsy_num (width (heap w ! a)) then Some (mb_width w) else width (heap w ! a))"
    and "height (heap (init_slides a w) ! a) =
          (if falsy_num (height (heap w ! a)) then Some (mb_height w) else height (heap w ! a))"
  using assms by (simp_all add: init_slides_def Let_def)

lemma init_slides_els:
  assumes "a < length (heap w)"
  shows "slide_els (init_slides a w) =
          fold (layout_slide (heap (init_slides a w) ! a))
            [0..<length (slides (heap w ! a))] (slide_els w)"
  using assms by (simp add: init_slides_def Let_def)

lemma init_slides_page:
  shows "length (heap (init_slides a w)) = length (heap w)"
    and "timers (init_slides a w) = timers w"
    and "classes (init_slides a w) = classes w"
    and "next_timer (init_slides a w) = next_timer w"
    and "attached (init_slides a w) = attached w"
    and "controls_blocks (init_slides a w) = controls_blocks w"
  by (simp_all add: init_slides_def Let_def)

lemma slide_css_keeps:
  shows "css_opacity (slide_css d i s) = Some (if i = 0 then 1 else 0)"
    and "css_zindex (slide_css d i s) = css_zindex s"
  by (simp_all add: slide_css_def Let_def)

lemma page_ok_mark:
  assumes "page_ok a w"
  shows "page_ok a (w\<lparr>classes := insert ''moodboard'' (classes w)\<rparr>)"
  using assms by (auto simp: page_ok_def split: option.splits)

lemma on_load_fresh:
  assumes a: "a < length (heap w)"
    and d: "slides (heap w ! a) = []" "count (heap w ! a) = int (length (slide_els w))"
      "current (heap w ! a) = 0" "interval (heap w ! a) = None"
    and t: "timers w = []" "''playing'' \<notin> classes w" "next_timer w \<noteq> 0"
    and z: "\<forall>s\<in>set (slide_els w). css_zindex s = None"
  shows "page_ok a (snd (on_load ([0..<length (slide_els w)], a) w))"
    and "slide_els w \<noteq> [] \<Longrightarrow> shown a (snd (on_load ([0..<length (slide_els w)], a) w))"
    and "''moodboard'' \<in> classes (snd (on_load ([0..<length (slide_els w)], a) w))"
    and "current (heap (snd (on_load ([0..<length (slide_els w)], a) w)) ! a) = 0"
    and "unstacked (slide_els (snd (on_load ([0..<length (slide_els w)], a) w)))"
proof -
  let ?n = "length (slide_els w)"
  define w1 where "w1 = measure_slides [0..<?n] a w"
  define w2 where "w2 = init_slides a w1"
  define w3 where "w3 = (if controls (heap w2 ! a) then init_controls w2 else w2)"
  define w4 where "w4 = w3\<lparr>attached := Some a\<rparr>"
  have a1: "a < length (heap w1)" using a by (simp add: w1_def measure_slides_eq)
  have d1: "slides (heap w1 ! a) = [0..<?n]" "count (heap w1 ! a) = int ?n"
      "current (heap w1 ! a) = 0" "interval (heap w1 ! a) = None"
    using a d by (simp_all add: w1_def measure_slides_eq)
  have p1: "slide_els w1 = slide_els w" "timers w1 = []" "classes w1 = classes w"
      "next_timer w1 = next_timer w"
    using a t by (simp_all add: w1_def measure_slides_eq)
  have a2: "a < length (heap w2)" using a1 by (simp add: w2_def init_slides_page)
  have d2: "slides (heap w2 ! a) = [0..<?n]" "count (heap w2 ! a) = int ?n"
      "current (heap w2 ! a) = 0" "interval (heap w2 ! a) = None"
    using d1 by (simp_all add: w2_def init_slides_data[OF a1])
  have els2: "slide_els w2 = fold (layout_slide (heap w2 ! a)) [0..<?n] (slide_els w)"
    using d1(1) p1(1) init_slides_els[OF a1] by (simp add: w2_def)
  have fl: "length (slide_els w2) = ?n"
      "\<forall>i<?n. slide_els w2 ! i = slide_css (heap w2 ! a) i (slide_els w ! i)"
    using fold_layout_slide[of ?n "heap w2 ! a" "slide_els w"] d2(1) els2 by simp_all
  have p2: "timers w2 = []" "classes w2 = classes w" "next_timer w2 = next_timer w"
    using p1 by (simp_all add: w2_def init_slides_page)
  have a4: "a < length (heap w4)" and h4: "heap w4 = heap w2" and e4: "slide_els w4 = slide_els w2"
    and p4: "timers w4 = []" "classes w4 = classes w" "next_timer w4 = next_timer w"
      "attached w4 = Some a"
    using a2 p2 by (simp_all add: w4_def w3_def init_controls_def)
  have ok4: "page_ok a w4"
    using a4 d2 fl(1) p4 t by (simp add: page_ok_def h4 e4)
  have sh4: "shown a w4" if "slide_els w \<noteq> []"
  proof -
    have "\<forall>j<?n. css_zindex (slide_els w ! j) = None" using z by simp
    then show ?thesis
      using that fl d2(3)
      by (simp add: shown_def one_revealed_def stacked_def unstacked_def list_all_upt h4 e4
          slide_css_keeps)
  qed
  let ?mark = "\<lambda>v. v\<lparr>classes := insert ''moodboard'' (classes v)\<rparr>"
  have unf: "on_load ([0..<?n], a) w =
      (if autostart (heap w4 ! a) \<and> count (heap w4 ! a) > 1 then
         (case moodboard PlayPause w4 of
            (Inl e, w5) \<Rightarrow> (Inl e, w5)
          | (Inr u, w5) \<Rightarrow> (Inr (), w5\<lparr>classes := insert ''moodboard'' (classes w5)\<rparr>))
       else (Inr (), w4\<lparr>classes := insert ''moodboard'' (classes w4)\<rparr>))"
    by (simp only: on_load_def Let_def fst_conv snd_conv w1_def[symmetric] w2_def[symmetric]
        w3_def[symmetric] w4_def[symmetric])
  obtain r v where rv: "handler playpause_fn w4 = (r, v)" by (cases "handler playpause_fn w4")
  then have r: "r = Inr ()" using handler_playpause_ok(1)[OF ok4] by simp
  have res: "snd (on_load ([0..<?n], a) w) =
      ?mark (if autostart (heap w4 ! a) \<and> count (heap w4 ! a) > 1
             then snd (handler playpause_fn w4) else w4)"
    unfolding unf using rv r by simp
  let ?w5 = "if autostart (heap w4 ! a) \<and> count (heap w4 ! a) > 1
             then snd (handler playpause_fn w4) else w4"
  have ok5: "page_ok a ?w5" using ok4 handler_playpause_ok(2)[OF ok4] by simp
  show "page_ok a (snd (on_load ([0..<?n], a) w))"
    unfolding res by (rule page_ok_mark[OF ok5])
  show "shown a (snd (on_load ([0..<?n], a) w))" if "slide_els w \<noteq> []"
  proof -
    have "shown a ?w5"
      using sh4[OF that] handler_playpause_ok(3,4)[OF ok4] by (auto intro: shown_cong)
    then show ?thesis unfolding res by (simp add: shown_def)
  qed
  show "''moodboard'' \<in> classes (snd (on_load ([0..<?n], a) w))"
    unfolding res by simp
  show "current (heap (snd (on_load ([0..<?n], a) w)) ! a) = 0"
    unfolding res using d2(3) h4 handler_playpause_ok(4)[OF ok4] by simp
  have "\<forall>j<?n. css_zindex (slide_els w ! j) = None" using z by simp
  then have "unstacked (slide_els w4)"
    using fl by (simp add: unstacked_def list_all_upt e4 slide_css_keeps)
  then show "unstacked (slide_els (snd (on_load ([0..<?n], a) w)))"
    unfolding res using handler_playpause_ok(3)[OF ok4] by simp
qed

lemma initialised_eq:
  "initialised dims W H opts =
     snd (on_load ([0..<length dims], 0) (do_initialize opts (fresh_page dims W H)))"
  by (simp add: initialised_def run_def init_def window_load_def fresh_page_def
      do_initialize_def Let_def split: prod.splits sum.splits)

lemma initialised_ok:
  shows "page_ok 0 (initialised dims W H opts)"
    and "dims \<noteq> [] \<Longrightarrow> shown 0 (initialised dims W H opts)"
    and "''moodboard'' \<in> classes (initialised dims W H opts)"
    and "current (heap (initialised dims W H opts) ! 0) = 0"
    and "unstacked (slide_els (initialised dims W H opts))"
proof -
  let ?w = "do_initialize opts (fresh_page dims W H)"
  have n: "length (slide_els ?w) = length dims"
    by (simp add: do_initialize_def fresh_page_def Let_def)
  have pre: "0 < length (heap ?w)" "slides (heap ?w ! 0) = []"
      "count (heap ?w ! 0) = int (length (slide_els ?w))"
      "current (heap ?w ! 0) = 0" "interval (heap ?w ! 0) = None"
      "timers ?w = []" "''playing'' \<notin> classes ?w" "next_timer ?w \<noteq> 0"
      "\<forall>s\<in>set (slide_els ?w). css_zindex s = None"
    by (auto simp add: do_initialize_def fresh_page_def plain_slide_def Let_def)
  note L = on_load_fresh[OF pre, unfolded n]
  show "page_ok 0 (initialised dims W H opts)"
    unfolding initialised_eq by (rule L(1))
  show "shown 0 (initialised dims W H opts)" if "dims \<noteq> []"
    unfolding initialised_eq using that
    by (intro L(2)) (simp add: do_initialize_def fresh_page_def Let_def)
  show "''moodboard'' \<in> classes (initialised dims W H opts)"
    unfolding initialised_eq by (rule L(3))
  show "current (heap (initialised dims W H opts) ! 0) = 0"
    unfolding initialised_eq by (rule L(4))
  show "unstacked (slide_els (initialised dims W H opts))"
    unfolding initialised_eq by (rule L(5))
qed

subsection \<open>Navigation without the invariant; classes\<close>

lemma shown_current_revealed:
  assumes "page_ok a w" and "shown a w" and "stack_inv r a w"
  shows "current_revealed r w"
  using assms
  by (simp add: current_revealed_def current_index_def page_ok_def shown_def stack_inv_def)

lemma pause_keeps:
  assumes "attached w = Some a" and "a < length (heap w)"
  shows "fst (handler pause_fn w) = Inr ()"
    and "attached (snd (handler pause_fn w)) = Some a"
    and "a < length (heap (snd (handler pause_fn w)))"
    and "current (heap (snd (handler pause_fn w)) ! a) = current (heap w ! a)"
    and "count (heap (snd (handler pause_fn w)) ! a) = count (heap w ! a)"
    and "slides (heap (snd (handler pause_fn w)) ! a) = slides (heap w ! a)"
  using assms
  by (auto simp: handler_def pause_fn_def clearInterval_def Let_def split: option.splits)

lemma reveal_keeps:
  assumes "a < length (heap w)"
    and "0 \<le> current (heap w ! a)" "current (heap w ! a) < int (length (slides (heap w ! a)))"
    and "0 \<le> k" "k < int (length (slides (heap w ! a)))"
  shows "fst (reveal a (Some k) w) = Inr ()"
    and "attached (snd (reveal a (Some k) w)) = attached w"
    and "a < length (heap (snd (reveal a (Some k) w)))"
    and "current (heap (snd (reveal a (Some k) w)) ! a) = k"
    and "count (heap (snd (reveal a (Some k) w)) ! a) = count (heap w ! a)"
    and "slides (heap (snd (reveal a (Some k) w)) ! a) = slides (heap w ! a)"
  using assms
  by (simp_all add: reveal_def js_index_def css_show_def to_number_def Let_def)

lemma navigate_keeps:
  assumes att: "attached w = Some a" and a: "a < length (heap w)"
    and cnt: "count (heap w ! a) = int (length (slides (heap w ! a)))"
    and c: "0 \<le> current (heap w ! a)" "current (heap w ! a) < count (heap w ! a)"
    and tgt: "\<forall>d. current d = current (heap w ! a) \<longrightarrow> count d = count (heap w ! a) \<longrightarrow>
               target d = Some k"
    and k: "0 \<le> k" "k < count (heap w ! a)"
  shows "fst (handler (navigate target) w) = Inr ()"
    and "attached (snd (handler (navigate target) w)) = Some a"
    and "a < length (heap (snd (handler (navigate target) w)))"
    and "current (heap (snd (handler (navigate target) w)) ! a) = k"
    and "count (heap (snd (handler (navigate target) w)) ! a) = count (heap w ! a)"
    and "slides (heap (snd (handler (navigate target) w)) ! a) = slides (heap w ! a)"
proof -
  define w1 where "w1 = (if truthy_handle (interval (heap w ! a)) then snd (handler pause_fn w) else w)"
  note P = pause_keeps[OF att a]
  have f1: "attached w1 = Some a" "a < length (heap w1)"
      "current (heap w1 ! a) = current (heap w ! a)" "count (heap w1 ! a) = count (heap w ! a)"
      "slides (heap w1 ! a) = slides (heap w ! a)"
    using att a P by (simp_all add: w1_def)
  have t: "target (heap w1 ! a) = Some k" using tgt f1 by simp
  have r: "a < length (heap w1)" "0 \<le> current (heap w1 ! a)"
      "current (heap w1 ! a) < int (length (slides (heap w1 ! a)))"
      "0 \<le> k" "k < int (length (slides (heap w1 ! a)))"
    using f1 cnt c k by simp_all
  note R = reveal_keeps[OF r]
  obtain v where v: "reveal a (Some k) w1 = (Inr (), v)"
    using R(1) by (cases "reveal a (Some k) w1") simp
  have eq: "handler (navigate target) w = (Inr (), v\<lparr>attached := Some a\<rparr>)"
    unfolding handler_navigate[OF att P(1) w1_def] t v by simp
  show "fst (handler (navigate target) w) = Inr ()" by (simp add: eq)
  show "attached (snd (handler (navigate target) w)) = Some a" by (simp add: eq)
  show "a < length (heap (snd (handler (navigate target) w)))" using R(3) v by (simp add: eq)
  show "current (heap (snd (handler (navigate target) w)) ! a) = k" using R(4) v by (simp add: eq)
  show "count (heap (snd (handler (navigate target) w)) ! a) = count (heap w ! a)"
    using R(5) v f1 by (simp add: eq)
  show "slides (heap (snd (handler (navigate target) w)) ! a) = slides (heap w ! a)"
    using R(6) v f1 by (simp add: eq)
qed

lemma next_previous_index:
  assumes "0 \<le> c" and "c < (n::int)"
  shows "((c + 1) mod n + n - 1) mod n = c"
proof (cases "c + 1 = n")
  case True
  then have e: "(c + 1) mod n + n - 1 = c" by simp
  have "c mod n = c" using assms by simp
  then show ?thesis unfolding e .
next
  case False
  then have "(c + 1) mod n = c + 1" using assms by simp
  then show ?thesis using assms by simp
qed

lemma classes_pause:
  "classes (snd (handler pause_fn w)) - {''playing''} = classes w - {''playing''}"
  by (auto simp: handler_def pause_fn_def clearInterval_def Let_def split: option.splits)

lemma classes_play:
  "classes (snd (handler play_fn w)) - {''playing''} = classes w - {''playing''}"
  by (auto simp: handler_def play_fn_def Let_def split: option.splits)

lemma classes_playpause:
  "classes (snd (handler playpause_fn w)) - {''playing''} = classes w - {''playing''}"
proof (cases "attached w")
  case None
  then show ?thesis by (simp add: handler_def playpause_fn_def)
next
  case (Some a)
  show ?thesis
  proof (cases "truthy_handle (interval (heap w ! a))")
    case True
    obtain r v where rv: "handler pause_fn w = (r, v)" by (cases "handler pause_fn w")
    then have "classes v - {''playing''} = classes w - {''playing''}"
      using classes_pause[of w] by simp
    then show ?thesis using Some True rv
      by (cases r) (simp_all add: handler_def[of playpause_fn] playpause_fn_def)
  next
    case False
    obtain r v where rv: "handler play_fn w = (r, v)" by (cases "handler play_fn w")
    then have "classes v - {''playing''} = classes w - {''playing''}"
      using classes_play[of w] by simp
    then show ?thesis using Some False rv
      by (cases r) (simp_all add: handler_def[of playpause_fn] playpause_fn_def)
  qed
qed

lemma pause_no_throw:
  assumes "attached w = Some a"
  shows "fst (handler pause_fn w) = Inr ()"
  using assms by (auto simp: handler_def pause_fn_def Let_def split: option.splits)

lemma classes_navigate:
  "classes (snd (handler (navigate target) w)) - {''playing''} = classes w - {''playing''}"
proof (cases "attached w")
  case None
  then show ?thesis by (simp add: handler_def navigate_def)
next
  case (Some a)
  define w1 where "w1 = (if truthy_handle (interval (heap w ! a)) then snd (handler pause_fn w) else w)"
  have c1: "classes w1 - {''playing''} = classes w - {''playing''}"
    using classes_pause[of w] by (simp add: w1_def)
  obtain r2 v2 where rv2: "reveal a (target (heap w1 ! a)) w1 = (r2, v2)"
    by (cases "reveal a (target (heap w1 ! a)) w1")
  have c2: "classes v2 = classes w1" using reveal_frame(2)[of a "target (heap w1 ! a)" w1] rv2 by simp
  have "handler (navigate target) w =
      (case r2 of Inl e \<Rightarrow> (Inl e, v2) | Inr u \<Rightarrow> (Inr (), v2\<lparr>attached := Some a\<rparr>))"
    unfolding handler_navigate[OF Some pause_no_throw[OF Some] w1_def] rv2
    by (cases r2) simp_all
  then show ?thesis using c1 c2 by (cases r2) simp_all
qed

lemma classes_destroy:
  "classes (snd (handler destroy_fn w)) =
     (if attached w = None then classes w else classes w - {''playing''})"
  by (auto simp: handler_def destroy_fn_def clearInterval_def Let_def split: option.splits)

lemma destroy_frame:
  shows "controls_blocks (snd (handler destroy_fn w)) =
          (if attached w = None then controls_blocks w else 0)"
    and "attached (snd (handler destroy_fn w)) = attached w"
    and "heap (snd (handler destroy_fn w)) = heap w"
    and "slide_els (snd (handler destroy_fn w)) = slide_els w"
  by (auto simp: handler_def destroy_fn_def clearInterval_def Let_def split: option.splits)

lemma classes_command:
  "classes (snd (moodboard c w)) - {''playing''} = classes w - {''playing''}"
proof (cases c)
  case (Init opts)
  then show ?thesis by (simp add: init_def do_initialize_def Let_def split: option.splits)
next
  case Destroy
  then show ?thesis by (auto simp: classes_destroy)
qed (simp_all add: classes_pause classes_play classes_playpause classes_navigate
      next_fn_navigate previous_fn_navigate jump_fn_navigate)

lemma classes_tick: "classes (snd (tick t w)) = classes w"
proof (cases "map_of (timers w) t")
  case None
  then show ?thesis by (simp add: tick_def)
next
  case (Some a)
  let ?r = "reveal a (js_rem (current (heap w ! a) + 1) (count (heap w ! a))) w"
  obtain r v where rv: "?r = (r, v)" by (cases ?r)
  then have "classes v = classes w"
    using reveal_frame(2)[of a "js_rem (current (heap w ! a) + 1) (count (heap w ! a))" w] by simp
  then show ?thesis using Some rv by (cases r) (simp_all add: tick_def)
qed

lemma classes_measure: "classes (measure_slides es a w) = classes w"
  by (induction es arbitrary: w) (simp_all add: Let_def)

lemma marker_on_load:
  assumes "''moodboard'' \<in> classes w"
  shows "''moodboard'' \<in> classes (snd (on_load h w))"
proof -
  define w4 where "w4 = (let w2 = init_slides (snd h) (measure_slides (fst h) (snd h) w)
      in (if controls (heap w2 ! snd h) then init_controls w2 else w2))\<lparr>attached := Some (snd h)\<rparr>"
  have c4: "classes w4 = classes w"
    by (simp add: w4_def Let_def init_controls_def init_slides_page classes_measure)
  obtain r v where rv: "moodboard PlayPause w4 = (r, v)" by (cases "moodboard PlayPause w4")
  have "classes v - {''playing''} = classes w4 - {''playing''}"
    using classes_command[of PlayPause w4] rv by simp
  then have m: "''moodboard'' \<in> classes v" using assms c4 by auto
  have "on_load h w =
      (if autostart (heap w4 ! snd h) \<and> count (heap w4 ! snd h) > 1 then
         (case moodboard PlayPause w4 of
            (Inl e, w5) \<Rightarrow> (Inl e, w5)
          | (Inr u, w5) \<Rightarrow> (Inr (), w5\<lparr>classes := insert ''moodboard'' (classes w5)\<rparr>))
       else (Inr (), w4\<lparr>classes := insert ''moodboard'' (classes w4)\<rparr>))"
    by (simp only: on_load_def Let_def w4_def)
  then show ?thesis using rv m by (cases r) auto
qed

lemma marker_run_handlers:
  assumes "''moodboard'' \<in> classes w"
  shows "''moodboard'' \<in> classes (snd (run_handlers hs w))"
  using assms
proof (induction hs arbitrary: w)
  case Nil
  then show ?case by simp
next
  case (Cons h hs)
  obtain r v where rv: "on_load h w = (r, v)" by (cases "on_load h w")
  then have "''moodboard'' \<in> classes v" using marker_on_load[OF Cons.prems, of h] by simp
  then show ?case using rv Cons.IH by (cases r) simp_all
qed

subsection \<open>Two \<open>init\<close> calls before the load event\<close>

lemma run_Nil: "run [] w = w"
  by (simp add: run_def)

lemma run_Cons: "run (ev # evs) w = run evs (step ev w)"
  by (simp add: run_def)

lemma twice_initialised:
  "run [Call (Init no_options), Call (Init no_options), Load]
     (fresh_page [(100, 80), (100, 80), (100, 80)] 640 480) =
   twin_page {''moodboard'', ''playing''} 1 [measured_data 0 (Some 1), measured_data 0 (Some 2)]
     [laid_slide (Some 1) None, laid_slide (Some 0) None, laid_slide (Some 0) None]
     [(1, 0), (2, 1)]"
proof -
  let ?fresh = "fresh_page [(100, 80), (100, 80), (100, 80)] 640 480"
  let ?d = "\<lparr>count = 3, current = 0, interval = None, slides = [], widths = [], heights = [],
      width = None, height = None, slide_time = 2500, autostart = True, controls = True\<rparr>"
  let ?w2 = "\<lparr>classes = {}, attached = None, heap = [?d, ?d], controls_blocks = 0,
      slide_els = [plain_slide (100, 80), plain_slide (100, 80), plain_slide (100, 80)],
      mb_width = 640, mb_height = 480, load_handlers = [([0, 1, 2], 0), ([0, 1, 2], 1)],
      timers = [], next_timer = 1\<rparr>"
  let ?w3 = "\<lparr>classes = {''moodboard'', ''playing''}, attached = Some 0,
      heap = [measured_data 0 (Some 1), ?d], controls_blocks = 1,
      slide_els = [laid_slide (Some 1) None, laid_slide (Some 0) None, laid_slide (Some 0) None],
      mb_width = 640, mb_height = 480, load_handlers = [([0, 1, 2], 0), ([0, 1, 2], 1)],
      timers = [(1, 0)], next_timer = 2\<rparr>"
  have s1: "run [Call (Init no_options), Call (Init no_options)] ?fresh = ?w2"
    by code_simp
  have s2: "on_load ([0, 1, 2], 0) ?w2 = (Inr (), ?w3)"
    by code_simp
  have s3: "on_load ([0, 1, 2], 1) ?w3 =
      (Inr (), twin_page {''moodboard'', ''playing''} 1
         [measured_data 0 (Some 1), measured_data 0 (Some 2)]
         [laid_slide (Some 1) None, laid_slide (Some 0) None, laid_slide (Some 0) None]
         [(1, 0), (2, 1)])"
    by code_simp
  have "run [Call (Init no_options), Call (Init no_options), Load] ?fresh =
      snd (window_load (run [Call (Init no_options), Call (Init no_options)] ?fresh))"
    by (simp add: run_def)
  also have "\<dots> = snd (run_handlers [([0, 1, 2], 0), ([0, 1, 2], 1)] ?w2)"
    unfolding s1 window_load_def by (simp only: world.simps)
  also have "\<dots> = twin_page {''moodboard'', ''playing''} 1
         [measured_data 0 (Some 1), measured_data 0 (Some 2)]
         [laid_slide (Some 1) None, laid_slide (Some 0) None, laid_slide (Some 0) None]
         [(1, 0), (2, 1)]"
    by (simp only: run_handlers.simps s2 s3 prod.case sum.case snd_conv)
  finally show ?thesis .
qed

section \<open>Commands on a container with and without attached state\<close>

text \<open>
  C8. \<open>pause\<close> on an initialised slideshow that is not playing (the attached object
  holds no truthy timer handle) raises no error and returns the page exactly as it was:
  current index, handle, classes and everything else.
\<close>

theorem pause_when_not_playing:
  assumes "attached w = Some a" and "\<not> truthy_handle (interval (heap w ! a))"
  shows "moodboard Pause w = (Inr (), w)"
  using assms
  by (auto simp: handler_def pause_fn_def truthy_handle_def split: option.splits)

theorem pause_when_not_playing_witness:
  "attached (board 1 no_options) = Some 0 \<and>
   \<not> truthy_handle (interval (heap (board 1 no_options) ! 0)) \<and>
   moodboard Pause (board 1 no_options) = (Inr (), board 1 no_options)"
proof -
  have h1: "attached (board 1 no_options) = Some 0" by code_simp
  have h2: "\<not> truthy_handle (interval (heap (board 1 no_options) ! 0))" by code_simp
  show ?thesis using h1 h2 pause_when_not_playing [OF h1 h2] by simp
qed

text \<open>
  C3, as the code has it. \<open>destroy\<close> on a container with no attached state is not a
  silent no-op: \<open>_handler\<close> passes \<open>undefined\<close> as \<open>data\<close>, and reading
  \<open>data.interval\<close> throws a TypeError before anything is changed. The page is returned
  unchanged, with the error.
\<close>

theorem destroy_uninitialised_throws:
  assumes "attached w = None"
  shows "moodboard Destroy w = (Inl TypeError, w)"
  using assms by (simp add: handler_def destroy_fn_def)

theorem destroy_uninitialised_throws_witness:
  "attached (fresh_page [(100, 80)] 640 480) = None \<and>
   moodboard Destroy (fresh_page [(100, 80)] 640 480) =
     (Inl TypeError, fresh_page [(100, 80)] 640 480)"
proof -
  have h: "attached (fresh_page [(100, 80)] 640 480) = None" by (simp add: fresh_page_def)
  show ?thesis using h destroy_uninitialised_throws [OF h] by simp
qed

text \<open>
  C3 as stated fails: on a page with one slide on which \<open>init\<close> was never called,
  \<open>destroy\<close> raises a TypeError.
\<close>

theorem destroy_uninitialised_counterexample:
  "fst (moodboard Destroy (fresh_page [(100, 80)] 640 480)) = Inl TypeError"
  by (simp add: handler_def destroy_fn_def fresh_page_def)

text \<open>
  C4, as the code has it. The guard of \<open>init\<close> is the attached object, and the object
  is attached by the load handler, not by the call. So \<open>init\<close> on a container whose
  state is attached is a no-op: no object is created, no handler is bound, the page is
  unchanged.
\<close>

theorem init_when_attached:
  assumes "attached w = Some a"
  shows "moodboard (Init opts) w = (Inr (), w)"
  using assms by (simp add: init_def)

theorem init_when_attached_witness:
  "attached (board 2 no_options) = Some 0 \<and>
   moodboard (Init no_options) (board 2 no_options) = (Inr (), board 2 no_options)"
proof -
  have h: "attached (board 2 no_options) = Some 0" by code_simp
  show ?thesis using h init_when_attached [OF h] by simp
qed

text \<open>
  C4 as stated fails: two \<open>init\<close> calls before the load event, on a page with two
  slides. The second call is not a no-op: it creates a second data object and binds a
  second load handler; at the load event both handlers run, two control blocks are
  rendered and two intervals are started.
\<close>

theorem init_twice_before_load_counterexample:
  "length (heap (run [Call (Init no_options), Call (Init no_options)]
      (fresh_page [(100, 80), (100, 80)] 640 480))) = 2 \<and>
   load_handlers (run [Call (Init no_options), Call (Init no_options)]
      (fresh_page [(100, 80), (100, 80)] 640 480)) = [([0, 1], 0), ([0, 1], 1)] \<and>
   controls_blocks (run [Call (Init no_options), Call (Init no_options), Load]
      (fresh_page [(100, 80), (100, 80)] 640 480)) = 2 \<and>
   timers (run [Call (Init no_options), Call (Init no_options), Load]
      (fresh_page [(100, 80), (100, 80)] 640 480)) = [(1, 0), (2, 1)]"
  by code_simp

text \<open>
  C1, the code at \<open>jump(-1)\<close> on a board of five slides at index 0. The remainder
  \<open>-1 % 5\<close> is \<open>-1\<close>, \<open>data.slides[-1]\<close> is \<open>undefined\<close>, and \<open>_reveal\<close> throws a
  TypeError after it has hidden the current slide: the index stays 0, slide 4 is not
  revealed, and every slide is left with opacity 0.
\<close>

theorem jump_minus_one_throws:
  "current_index (board 5 no_options) = Some 0 \<and>
   js_rem (- 1) 5 = Some (- 1) \<and>
   fst (moodboard (Jump (- 1)) (board 5 no_options)) = Inl TypeError \<and>
   current_index (snd (moodboard (Jump (- 1)) (board 5 no_options))) = Some 0 \<and>
   map css_opacity (slide_els (snd (moodboard (Jump (- 1)) (board 5 no_options)))) =
     [Some 0, Some 0, Some 0, Some 0, Some 0]"
  by code_simp

text \<open>
  C2, the code at \<open>destroy\<close> on an initialised board of two slides that is playing.
  \<open>destroy\<close> returns \<open>null\<close>, and \<open>_handler\<close> stores a return value only when it is
  truthy, so the data object stays attached (still holding the handle of the cleared
  interval), and a following \<open>init\<close> finds it and does nothing.
\<close>

theorem destroy_leaves_state_attached:
  "attached (board 2 no_options) = Some 0 \<and>
   attached (snd (moodboard Destroy (board 2 no_options))) = Some 0 \<and>
   timer_handle (snd (moodboard Destroy (board 2 no_options))) = Some 1 \<and>
   moodboard (Init no_options) (snd (moodboard Destroy (board 2 no_options))) =
     (Inr (), snd (moodboard Destroy (board 2 no_options)))"
  by code_simp

section \<open>Exactly one slide is revealed\<close>

text \<open>
  C5, as the code has it. Take a page with at least one slide, one \<open>init\<close> call and
  the load event, and then any sequence of commands other than \<open>destroy\<close> whose jump
  indices are not negative, and of interval firings. Right after initialisation the
  current index is 0, and at every point exactly the slide at the current index has
  opacity 1 while every other slide has opacity 0. As long as no reveal has run
  (no \<open>next\<close>, \<open>previous\<close> or \<open>jump\<close>, no firing of a running interval), no slide has
  a z-index; once one has run, the slide at the current index has z-index 101 and
  every other slide has z-index 100, or none if it was never revealed.
\<close>

theorem one_slide_revealed:
  assumes "dims \<noteq> []" and "list_all steady evs"
  shows "current_index (initialised dims W H opts) = Some 0 \<and>
         current_revealed (revealed_in evs (initialised dims W H opts))
           (run evs (initialised dims W H opts))"
proof -
  have ok: "page_ok 0 (initialised dims W H opts)" by (rule initialised_ok(1))
  have sh: "shown 0 (initialised dims W H opts)" using assms(1) by (rule initialised_ok(2))
  have st: "stack_inv False 0 (initialised dims W H opts)"
    using initialised_ok(5)[of dims W H opts] by (simp add: stack_inv_def)
  have "current_index (initialised dims W H opts) = Some 0"
    using ok initialised_ok(4)[of dims W H opts] by (simp add: current_index_def page_ok_def)
  moreover have "current_revealed (revealed_in evs (initialised dims W H opts))
      (run evs (initialised dims W H opts))"
    using run_shown[OF ok sh assms(2)] run_stack[OF ok sh assms(2) st]
    by (auto intro: shown_current_revealed)
  ultimately show ?thesis by simp
qed

theorem one_slide_revealed_witness:
  "[(100, 80), (50, 60), (800, 600)] \<noteq> ([] :: (int \<times> int) list) \<and>
   list_all steady [Call Next, Tick 1, Call (Jump 7), Call Previous, Call Play, Tick 2] \<and>
   current_index (initialised [(100, 80), (50, 60), (800, 600)] 640 480 no_options) = Some 0 \<and>
   current_revealed True
     (run [Call Next, Tick 1, Call (Jump 7), Call Previous, Call Play, Tick 2]
        (initialised [(100, 80), (50, 60), (800, 600)] 640 480 no_options)) \<and>
   list_all steady [Call Play, Call Pause, Tick 1] \<and>
   current_revealed False
     (run [Call Play, Call Pause, Tick 1]
        (initialised [(100, 80), (50, 60), (800, 600)] 640 480 no_options))"
proof -
  have h1: "[(100, 80), (50, 60), (800, 600)] \<noteq> ([] :: (int \<times> int) list)" by simp
  have h2: "list_all steady [Call Next, Tick 1, Call (Jump 7), Call Previous, Call Play, Tick 2]"
    by simp
  have h3: "list_all steady [Call Play, Call Pause, Tick 1]" by simp
  have r2: "revealed_in [Call Next, Tick 1, Call (Jump 7), Call Previous, Call Play, Tick 2]
      (initialised [(100, 80), (50, 60), (800, 600)] 640 480 no_options)" by simp
  have r3: "\<not> revealed_in [Call Play, Call Pause, Tick 1]
      (initialised [(100, 80), (50, 60), (800, 600)] 640 480 no_options)" by code_simp
  show ?thesis
    using h1 h2 h3 r2 r3
      one_slide_revealed [OF h1 h2, of 640 480 no_options]
      one_slide_revealed [OF h1 h3, of 640 480 no_options]
    by simp
qed

text \<open>
  C5 as stated fails, in four ways. A board initialised on a container with no slide
  has its state attached and no slide revealed. The layout gives the first slide of a
  board of two opacity 1 and no z-index, so the slide shown first is not raised.
  \<open>jump(-1)\<close> on a board of five slides leaves the state attached and all five slides
  with opacity 0. And after two \<open>init\<close> calls before the load event on a page of three
  slides, two firings of the first interval and one of the second leave two slides
  with opacity 1.
\<close>

theorem no_slide_revealed_counterexample:
  "attached (board 0 no_options) = Some 0 \<and>
   slide_els (board 0 no_options) = [] \<and>
   map css_opacity (slide_els (board 2 no_options)) = [Some 1, Some 0] \<and>
   map css_zindex (slide_els (board 2 no_options)) = [None, None] \<and>
   attached (step (Call (Jump (- 1))) (board 5 no_options)) = Some 0 \<and>
   map css_opacity (slide_els (step (Call (Jump (- 1))) (board 5 no_options))) =
     [Some 0, Some 0, Some 0, Some 0, Some 0] \<and>
   map css_opacity (slide_els
     (run [Tick 1, Tick 1, Tick 2]
        (run [Call (Init no_options), Call (Init no_options), Load]
           (fresh_page [(100, 80), (100, 80), (100, 80)] 640 480)))) =
     [Some 0, Some 1, Some 1]"
proof -
  have single: "attached (board 0 no_options) = Some 0 \<and>
      slide_els (board 0 no_options) = [] \<and>
      map css_opacity (slide_els (board 2 no_options)) = [Some 1, Some 0] \<and>
      map css_zindex (slide_els (board 2 no_options)) = [None, None] \<and>
      attached (step (Call (Jump (- 1))) (board 5 no_options)) = Some 0 \<and>
      map css_opacity (slide_els (step (Call (Jump (- 1))) (board 5 no_options))) =
        [Some 0, Some 0, Some 0, Some 0, Some 0]"
    by code_simp
  have t1: "step (Tick 1)
      (twin_page {''moodboard'', ''playing''} 1
         [measured_data 0 (Some 1), measured_data 0 (Some 2)]
         [laid_slide (Some 1) None, laid_slide (Some 0) None, laid_slide (Some 0) None]
         [(1, 0), (2, 1)]) =
      twin_page {''moodboard'', ''playing''} 0
         [measured_data 1 (Some 1), measured_data 0 (Some 2)]
         [laid_slide (Some 0) (Some 100), laid_slide (Some 1) (Some 101), laid_slide (Some 0) None]
         [(1, 0), (2, 1)]"
    by code_simp
  have t2: "step (Tick 1)
      (twin_page {''moodboard'', ''playing''} 0
         [measured_data 1 (Some 1), measured_data 0 (Some 2)]
         [laid_slide (Some 0) (Some 100), laid_slide (Some 1) (Some 101), laid_slide (Some 0) None]
         [(1, 0), (2, 1)]) =
      twin_page {''moodboard'', ''playing''} 0
         [measured_data 2 (Some 1), measured_data 0 (Some 2)]
         [laid_slide (Some 0) (Some 100), laid_slide (Some 0) (Some 100),
          laid_slide (Some 1) (Some 101)]
         [(1, 0), (2, 1)]"
    by code_simp
  have t3: "map css_opacity (slide_els (step (Tick 2)
      (twin_page {''moodboard'', ''playing''} 0
         [measured_data 2 (Some 1), measured_data 0 (Some 2)]
         [laid_slide (Some 0) (Some 100), laid_slide (Some 0) (Some 100),
          laid_slide (Some 1) (Some 101)]
         [(1, 0), (2, 1)]))) = [Some 0, Some 1, Some 1]"
    by code_simp
  have twice: "map css_opacity (slide_els
     (run [Tick 1, Tick 1, Tick 2]
        (run [Call (Init no_options), Call (Init no_options), Load]
           (fresh_page [(100, 80), (100, 80), (100, 80)] 640 480)))) =
     [Some 0, Some 1, Some 1]"
    unfolding twice_initialised by (simp only: run_Cons run_Nil t1 t2 t3)
  show ?thesis using single twice by (simp only: simp_thms)
qed

section \<open>The timer handle and the playing state\<close>

text \<open>
  C6, as the code has it. Take any page, one \<open>init\<close> call and the load event, and
  then any sequence of commands other than \<open>destroy\<close> (any jump index, also one that
  throws) and of interval firings. Then the attached object holds a handle exactly when the container is
  marked \<open>playing\<close>, and the running intervals are exactly that handle (none when
  there is no handle). Two \<open>play\<close> calls in a row leave exactly one running interval;
  \<open>pause\<close> leaves no running interval, no handle and no \<open>playing\<close> mark.
\<close>

theorem handle_iff_playing:
  assumes "list_all live evs"
  shows "(timer_handle (run evs (initialised dims W H opts)) \<noteq> None) =
           (''playing'' \<in> classes (run evs (initialised dims W H opts))) \<and>
         map fst (timers (run evs (initialised dims W H opts))) =
           (case timer_handle (run evs (initialised dims W H opts)) of
              None \<Rightarrow> [] | Some t \<Rightarrow> [t]) \<and>
         length (timers (run [Call Play, Call Play] (run evs (initialised dims W H opts)))) = 1 \<and>
         timer_handle (run [Call Play, Call Play] (run evs (initialised dims W H opts))) \<noteq> None \<and>
         timers (run [Call Pause] (run evs (initialised dims W H opts))) = [] \<and>
         timer_handle (run [Call Pause] (run evs (initialised dims W H opts))) = None \<and>
         ''playing'' \<notin> classes (run [Call Pause] (run evs (initialised dims W H opts)))"
proof -
  let ?w = "run evs (initialised dims W H opts)"
  have ok: "page_ok 0 ?w" using run_page_ok[OF initialised_ok(1) assms] .
  have obs: "(timer_handle v \<noteq> None) = (''playing'' \<in> classes v) \<and>
       map fst (timers v) = (case timer_handle v of None \<Rightarrow> [] | Some t \<Rightarrow> [t])"
    if "page_ok 0 v" for v
    using that by (auto simp: page_ok_def timer_handle_def split: option.splits)
  have pp: "page_ok 0 (run [Call Play, Call Play] ?w)"
    by (rule run_page_ok[OF ok]) simp
  have pl: "timer_handle (run [Call Play, Call Play] ?w) \<noteq> None"
    using handler_play_ok(2)[OF ok] handler_play_ok(3)[OF handler_play_ok(2)[OF ok]] pp
    by (simp add: run_def timer_handle_def page_ok_def)
  have l1: "length (timers (run [Call Play, Call Play] ?w)) = 1"
    using pp pl by (auto simp: page_ok_def timer_handle_def split: option.splits)
  have pa: "page_ok 0 (run [Call Pause] ?w)"
    by (rule run_page_ok[OF ok]) simp
  have ph: "timer_handle (run [Call Pause] ?w) = None"
    using handler_pause_ok(3)[OF ok] pa by (simp add: run_def timer_handle_def page_ok_def)
  have pt: "timers (run [Call Pause] ?w) = []" "''playing'' \<notin> classes (run [Call Pause] ?w)"
    using pa ph by (auto simp: page_ok_def timer_handle_def split: option.splits)
  show ?thesis using obs[OF ok] pl l1 ph pt by simp
qed

theorem handle_iff_playing_witness:
  "list_all live [Call Play, Call Next, Call (Jump (- 1)), Call PlayPause, Tick 2] \<and>
   (timer_handle (run [Call Play, Call Next, Call (Jump (- 1)), Call PlayPause, Tick 2]
       (initialised [(100, 80), (50, 60)] 640 480 no_options)) \<noteq> None) =
     (''playing'' \<in> classes (run [Call Play, Call Next, Call (Jump (- 1)), Call PlayPause, Tick 2]
       (initialised [(100, 80), (50, 60)] 640 480 no_options))) \<and>
   length (timers (run [Call Play, Call Play]
     (run [Call Play, Call Next, Call (Jump (- 1)), Call PlayPause, Tick 2]
       (initialised [(100, 80), (50, 60)] 640 480 no_options)))) = 1 \<and>
   timers (run [Call Pause]
     (run [Call Play, Call Next, Call (Jump (- 1)), Call PlayPause, Tick 2]
       (initialised [(100, 80), (50, 60)] 640 480 no_options))) = []"
proof -
  have h: "list_all live [Call Play, Call Next, Call (Jump (- 1)), Call PlayPause, Tick 2]"
    by simp
  show ?thesis
    using h handle_iff_playing [OF h, of "[(100, 80), (50, 60)]" 640 480 no_options] by simp
qed

text \<open>
  C6 as stated fails on initialised slideshows outside that scope. After two \<open>init\<close>
  calls before the load event (three slides), one handle is attached and two intervals
  run; \<open>pause\<close> clears the handle and leaves the first interval running; the firing
  of that interval then attaches the first data object, whose handle is set, on a
  container not marked \<open>playing\<close>; and two \<open>play\<close> calls leave two intervals running.
  After \<open>destroy\<close> on a playing board of two slides the state is still attached and
  holds the handle of the cleared interval, nothing runs and the container is not
  marked \<open>playing\<close>; two \<open>play\<close> calls then start nothing.
\<close>

theorem handle_iff_playing_counterexample:
  "timer_handle (run [Call (Init no_options), Call (Init no_options), Load]
       (fresh_page [(100, 80), (100, 80), (100, 80)] 640 480)) = Some 2 \<and>
   timers (run [Call (Init no_options), Call (Init no_options), Load]
       (fresh_page [(100, 80), (100, 80), (100, 80)] 640 480)) = [(1, 0), (2, 1)] \<and>
   timer_handle (run [Call Pause]
     (run [Call (Init no_options), Call (Init no_options), Load]
       (fresh_page [(100, 80), (100, 80), (100, 80)] 640 480))) = None \<and>
   timers (run [Call Pause]
     (run [Call (Init no_options), Call (Init no_options), Load]
       (fresh_page [(100, 80), (100, 80), (100, 80)] 640 480))) = [(1, 0)] \<and>
   timer_handle (run [Call Pause, Tick 1]
     (run [Call (Init no_options), Call (Init no_options), Load]
       (fresh_page [(100, 80), (100, 80), (100, 80)] 640 480))) = Some 1 \<and>
   classes (run [Call Pause, Tick 1]
     (run [Call (Init no_options), Call (Init no_options), Load]
       (fresh_page [(100, 80), (100, 80), (100, 80)] 640 480))) = {''moodboard''} \<and>
   timers (run [Call Play, Call Play]
     (run [Call (Init no_options), Call (Init no_options), Load]
       (fresh_page [(100, 80), (100, 80), (100, 80)] 640 480))) = [(1, 0), (2, 1)] \<and>
   attached (run [Call Destroy] (board 2 no_options)) = Some 0 \<and>
   timer_handle (run [Call Destroy] (board 2 no_options)) = Some 1 \<and>
   timers (run [Call Destroy] (board 2 no_options)) = [] \<and>
   classes (run [Call Destroy] (board 2 no_options)) = {''moodboard''} \<and>
   timers (run [Call Play, Call Play] (run [Call Destroy] (board 2 no_options))) = []"
proof -
  let ?twin = "twin_page {''moodboard'', ''playing''} 1
         [measured_data 0 (Some 1), measured_data 0 (Some 2)]
         [laid_slide (Some 1) None, laid_slide (Some 0) None, laid_slide (Some 0) None]
         [(1, 0), (2, 1)]"
  let ?paused = "twin_page {''moodboard''} 1
         [measured_data 0 (Some 1), measured_data 0 None]
         [laid_slide (Some 1) None, laid_slide (Some 0) None, laid_slide (Some 0) None]
         [(1, 0)]"
  have o1: "timer_handle ?twin = Some 2" "timers ?twin = [(1, 0), (2, 1)]"
    by code_simp+
  have p1: "step (Call Pause) ?twin = ?paused"
    by code_simp
  have o2: "timer_handle ?paused = None" "timers ?paused = [(1, 0)]"
    by code_simp+
  have o3: "timer_handle (step (Tick 1) ?paused) = Some 1"
      "classes (step (Tick 1) ?paused) = {''moodboard''}"
    by code_simp+
  have p2: "step (Call Play) ?twin = ?twin"
    by code_simp
  have twice:
    "timer_handle (run [Call (Init no_options), Call (Init no_options), Load]
       (fresh_page [(100, 80), (100, 80), (100, 80)] 640 480)) = Some 2"
    "timers (run [Call (Init no_options), Call (Init no_options), Load]
       (fresh_page [(100, 80), (100, 80), (100, 80)] 640 480)) = [(1, 0), (2, 1)]"
    "timer_handle (run [Call Pause]
     (run [Call (Init no_options), Call (Init no_options), Load]
       (fresh_page [(100, 80), (100, 80), (100, 80)] 640 480))) = None"
    "timers (run [Call Pause]
     (run [Call (Init no_options), Call (Init no_options), Load]
       (fresh_page [(100, 80), (100, 80), (100, 80)] 640 480))) = [(1, 0)]"
    "timer_handle (run [Call Pause, Tick 1]
     (run [Call (Init no_options), Call (Init no_options), Load]
       (fresh_page [(100, 80), (100, 80), (100, 80)] 640 480))) = Some 1"
    "classes (run [Call Pause, Tick 1]
     (run [Call (Init no_options), Call (Init no_options), Load]
       (fresh_page [(100, 80), (100, 80), (100, 80)] 640 480))) = {''moodboard''}"
    "timers (run [Call Play, Call Play]
     (run [Call (Init no_options), Call (Init no_options), Load]
       (fresh_page [(100, 80), (100, 80), (100, 80)] 640 480))) = [(1, 0), (2, 1)]"
    unfolding twice_initialised by (simp_all only: run_Cons run_Nil p1 p2 o1 o2 o3)
  have destroyed:
    "attached (run [Call Destroy] (board 2 no_options)) = Some 0 \<and>
     timer_handle (run [Call Destroy] (board 2 no_options)) = Some 1 \<and>
     timers (run [Call Destroy] (board 2 no_options)) = [] \<and>
     classes (run [Call Destroy] (board 2 no_options)) = {''moodboard''}"
    by code_simp
  have replay: "timers (run [Call Play, Call Play] (run [Call Destroy] (board 2 no_options))) = []"
    by code_simp
  show ?thesis using twice destroyed replay by (simp only: simp_thms)
qed

section \<open>\<open>next\<close> and \<open>previous\<close> are inverse on the current index\<close>

text \<open>
  C7. On a container with attached state whose count is the number of its slides and
  whose current index lies in \<open>[0, count)\<close> (so there is at least one slide), \<open>next\<close>
  and then \<open>previous\<close> both return without error, \<open>next\<close> moves to
  \<open>(current + 1) mod count\<close>, and \<open>previous\<close> brings the current index back to its
  original value.
\<close>

theorem next_then_previous:
  assumes "attached w = Some a" and "a < length (heap w)"
    and "count (heap w ! a) = int (length (slides (heap w ! a)))"
    and "0 \<le> current (heap w ! a)" and "current (heap w ! a) < count (heap w ! a)"
  shows "fst (moodboard Next w) = Inr () \<and>
         fst (moodboard Previous (snd (moodboard Next w))) = Inr () \<and>
         current_index (snd (moodboard Next w)) =
           Some ((current (heap w ! a) + 1) mod count (heap w ! a)) \<and>
         current_index (snd (moodboard Previous (snd (moodboard Next w)))) = current_index w"
proof -
  let ?c = "current (heap w ! a)" and ?n = "count (heap w ! a)"
  let ?k = "(?c + 1) mod ?n"
  have k: "0 \<le> ?k" "?k < ?n" using assms(4,5) by simp_all
  have t1: "\<forall>d::data_obj. current d = ?c \<longrightarrow> count d = ?n \<longrightarrow>
      js_rem (current d + 1) (count d) = Some ?k"
    using assms(4,5) by (simp add: js_rem_nonneg)
  note N = navigate_keeps[where target = "\<lambda>d. js_rem (current d + 1) (count d)" and k = ?k,
      OF assms(1,2,3,4,5) t1 k, folded next_fn_navigate]
  let ?w1 = "snd (handler next_fn w)"
  have cnt1: "count (heap ?w1 ! a) = int (length (slides (heap ?w1 ! a)))"
    using N(5,6) assms(3) by simp
  have c1: "0 \<le> current (heap ?w1 ! a)" "current (heap ?w1 ! a) < count (heap ?w1 ! a)"
    using N(4,5) k by simp_all
  have inv: "(?k + ?n - 1) mod ?n = ?c" using next_previous_index[OF assms(4,5)] .
  have t2: "\<forall>d::data_obj. current d = current (heap ?w1 ! a) \<longrightarrow> count d = count (heap ?w1 ! a) \<longrightarrow>
      js_rem (current d + count d - 1) (count d) = Some ?c"
  proof (intro allI impI)
    fix d :: data_obj
    assume d: "current d = current (heap ?w1 ! a)" "count d = count (heap ?w1 ! a)"
    have n: "0 < ?n" using assms(4,5) by simp
    then have "0 \<le> ?k + ?n - 1" using k(1) by linarith
    then have "js_rem (?k + ?n - 1) ?n = Some ((?k + ?n - 1) mod ?n)"
      using n by (rule js_rem_nonneg)
    moreover have "current d = ?k" "count d = ?n" using d N(4,5) by simp_all
    ultimately show "js_rem (current d + count d - 1) (count d) = Some ?c"
      unfolding inv by simp
  qed
  have k2: "0 \<le> ?c" "?c < count (heap ?w1 ! a)" using assms(4,5) N(5) by simp_all
  note V = navigate_keeps[where target = "\<lambda>d. js_rem (current d + count d - 1) (count d)"
      and k = ?c, OF N(2) N(3) cnt1 c1 t2 k2, folded previous_fn_navigate]
  have r1: "fst (moodboard Next w) = Inr ()" using N(1) by simp
  have r2: "fst (moodboard Previous (snd (moodboard Next w))) = Inr ()" using V(1) by simp
  have r3: "current_index (snd (moodboard Next w)) = Some ?k"
    using N(2) N(4) by (simp add: current_index_def)
  have r4: "current_index (snd (moodboard Previous (snd (moodboard Next w)))) = Some ?c"
    using V(2) V(4) by (simp add: current_index_def)
  have r5: "current_index w = Some ?c" using assms(1) by (simp add: current_index_def)
  show ?thesis using r1 r2 r3 r4 r5 by simp
qed

theorem next_then_previous_witness:
  "attached (board 3 no_options) = Some 0 \<and>
   0 < length (heap (board 3 no_options)) \<and>
   count (heap (board 3 no_options) ! 0) = int (length (slides (heap (board 3 no_options) ! 0))) \<and>
   0 \<le> current (heap (board 3 no_options) ! 0) \<and>
   current (heap (board 3 no_options) ! 0) < count (heap (board 3 no_options) ! 0) \<and>
   fst (moodboard Next (board 3 no_options)) = Inr () \<and>
   fst (moodboard Previous (snd (moodboard Next (board 3 no_options)))) = Inr () \<and>
   current_index (snd (moodboard Previous (snd (moodboard Next (board 3 no_options))))) =
     current_index (board 3 no_options)"
proof -
  have h1: "attached (board 3 no_options) = Some 0" by code_simp
  have h2: "0 < length (heap (board 3 no_options))" by code_simp
  have h3: "count (heap (board 3 no_options) ! 0) =
      int (length (slides (heap (board 3 no_options) ! 0)))" by code_simp
  have h4: "0 \<le> current (heap (board 3 no_options) ! 0)" by code_simp
  have h5: "current (heap (board 3 no_options) ! 0) < count (heap (board 3 no_options) ! 0)"
    by code_simp
  show ?thesis using h1 h2 h3 h4 h5 next_then_previous [OF h1 h2 h3 h4 h5] by simp
qed

section \<open>The default layout of the slides\<close>

text \<open>
  C9. \<open>_init_slides\<close> on a data object whose slides are distinct elements of the page
  and whose \<open>widths\<close> and \<open>heights\<close> are parallel to them (as the load handler builds
  it): the container size becomes the configured one, or the measured one when none is
  configured; and for every index \<open>i\<close> the slide gets width \<open>widths[i]\<close>, height
  \<open>heights[i]\<close>, left offset \<open>max(0, (containerWidth - widths[i]) / 2)\<close>, top offset
  \<open>max(0, (containerHeight - heights[i]) / 2)\<close> and opacity 1 when \<open>i = 0\<close>, else 0.
\<close>

theorem init_slides_layout:
  assumes "a < length (heap w)"
    and "distinct (slides (heap w ! a))"
    and "list_all (\<lambda>e. e < length (slide_els w)) (slides (heap w ! a))"
    and "length (widths (heap w ! a)) = length (slides (heap w ! a))"
    and "length (heights (heap w ! a)) = length (slides (heap w ! a))"
    and "i < length (slides (heap w ! a))"
  shows "width (heap (init_slides a w) ! a) = Some (resolved (width (heap w ! a)) (mb_width w)) \<and>
     height (heap (init_slides a w) ! a) = Some (resolved (height (heap w ! a)) (mb_height w)) \<and>
     css_width (slide_els (init_slides a w) ! (slides (heap w ! a) ! i)) =
       Some (widths (heap w ! a) ! i) \<and>
     css_height (slide_els (init_slides a w) ! (slides (heap w ! a) ! i)) =
       Some (heights (heap w ! a) ! i) \<and>
     css_left (slide_els (init_slides a w) ! (slides (heap w ! a) ! i)) =
       Some (max 0 (of_int (resolved (width (heap w ! a)) (mb_width w) - widths (heap w ! a) ! i) / 2)) \<and>
     css_top (slide_els (init_slides a w) ! (slides (heap w ! a) ! i)) =
       Some (max 0 (of_int (resolved (height (heap w ! a)) (mb_height w) - heights (heap w ! a) ! i) / 2)) \<and>
     css_opacity (slide_els (init_slides a w) ! (slides (heap w ! a) ! i)) =
       Some (if i = 0 then 1 else 0)"
proof -
  let ?d = "heap w ! a" and ?d2 = "heap (init_slides a w) ! a"
  note D = init_slides_data[OF assms(1)]
  have valid: "\<forall>e\<in>set (slides ?d2). e < length (slide_els w)"
    using assms(3) D(1) by (simp add: list_all_iff)
  have dist: "distinct (slides ?d2)" using assms(2) D(1) by simp
  have "fold (layout_slide ?d2) [0..<length (slides ?d2)] (slide_els w) ! (slides ?d2 ! i) =
      slide_css ?d2 i (slide_els w ! (slides ?d2 ! i))"
    using fold_layout_slide[OF le_refl dist valid] assms(6) D(1) by simp
  then have s: "slide_els (init_slides a w) ! (slides ?d ! i) =
      slide_css ?d2 i (slide_els w ! (slides ?d ! i))"
    using init_slides_els[OF assms(1)] D(1) by simp
  have cw: "to_number (width ?d2) = resolved (width ?d) (mb_width w)"
    and ch: "to_number (height ?d2) = resolved (height ?d) (mb_height w)"
    using D(9,10) by (simp_all add: resolved_def to_number_def)
  have w2: "width ?d2 = Some (resolved (width ?d) (mb_width w))"
    and h2: "height ?d2 = Some (resolved (height ?d) (mb_height w))"
    using D(9,10)
    by (auto simp: resolved_def to_number_def falsy_num_def split: option.splits)
  have wi: "js_index (widths ?d2) (Some (int i)) = Some (widths ?d ! i)"
    and hi: "js_index (heights ?d2) (Some (int i)) = Some (heights ?d ! i)"
    using D(2,3) assms(4,5,6) by (simp_all add: js_index_def)
  show ?thesis
    unfolding s w2 h2
    by (simp add: slide_css_def Let_def wi hi cw ch set_css_def centre_def)
qed

theorem init_slides_layout_witness:
  "0 < length (heap layout_example) \<and>
   distinct (slides (heap layout_example ! 0)) \<and>
   list_all (\<lambda>e. e < length (slide_els layout_example)) (slides (heap layout_example ! 0)) \<and>
   length (widths (heap layout_example ! 0)) = length (slides (heap layout_example ! 0)) \<and>
   length (heights (heap layout_example ! 0)) = length (slides (heap layout_example ! 0)) \<and>
   1 < length (slides (heap layout_example ! 0)) \<and>
   css_width (slide_els (init_slides 0 layout_example) ! (slides (heap layout_example ! 0) ! 1)) =
     Some (widths (heap layout_example ! 0) ! 1) \<and>
   css_left (slide_els (init_slides 0 layout_example) ! (slides (heap layout_example ! 0) ! 1)) =
     Some (max 0 (of_int (resolved (width (heap layout_example ! 0)) (mb_width layout_example)
                           - widths (heap layout_example ! 0) ! 1) / 2)) \<and>
   css_opacity (slide_els (init_slides 0 layout_example) ! (slides (heap layout_example ! 0) ! 1)) =
     Some 0 \<and>
   map css_left (slide_els (init_slides 0 layout_example)) = [Some 270, Some 0] \<and>
   map css_top (slide_els (init_slides 0 layout_example)) = [Some 200, Some 0]"
proof -
  have h1: "0 < length (heap layout_example)" by code_simp
  have h2: "distinct (slides (heap layout_example ! 0))" by code_simp
  have h3: "list_all (\<lambda>e. e < length (slide_els layout_example))
      (slides (heap layout_example ! 0))" by code_simp
  have h4: "length (widths (heap layout_example ! 0)) = length (slides (heap layout_example ! 0))"
    by code_simp
  have h5: "length (heights (heap layout_example ! 0)) = length (slides (heap layout_example ! 0))"
    by code_simp
  have h6: "1 < length (slides (heap layout_example ! 0))" by code_simp
  have v1: "map css_left (slide_els (init_slides 0 layout_example)) = [Some 270, Some 0]"
    by code_simp
  have v2: "map css_top (slide_els (init_slides 0 layout_example)) = [Some 200, Some 0]"
    by code_simp
  show ?thesis
    using h1 h2 h3 h4 h5 h6 v1 v2 init_slides_layout [OF h1 h2 h3 h4 h5 h6] by simp
qed

section \<open>The marker class\<close>

text \<open>
  C10. Of the classes of the container, \<open>destroy\<close> removes \<open>playing\<close> and nothing
  else (and nothing at all when it throws for want of attached state); it removes the
  rendered control blocks and leaves the attached object, the heap and the slides as
  they are. No command, no interval firing and no load event removes the class
  \<open>moodboard\<close> from a container that has it; and initialisation puts it there.
\<close>

theorem marker_class_stays:
  "classes (snd (moodboard Destroy w)) =
     (if attached w = None then classes w else classes w - {''playing''}) \<and>
   controls_blocks (snd (moodboard Destroy w)) =
     (if attached w = None then controls_blocks w else 0) \<and>
   attached (snd (moodboard Destroy w)) = attached w \<and>
   heap (snd (moodboard Destroy w)) = heap w \<and>
   slide_els (snd (moodboard Destroy w)) = slide_els w \<and>
   (''moodboard'' \<in> classes w \<longrightarrow> ''moodboard'' \<in> classes (step ev w)) \<and>
   ''moodboard'' \<in> classes (initialised dims W H opts)"
proof -
  have "''moodboard'' \<in> classes (step ev w)" if m: "''moodboard'' \<in> classes w"
  proof (cases ev)
    case (Call c)
    have "classes (snd (moodboard c w)) - {''playing''} = classes w - {''playing''}"
      by (rule classes_command)
    then show ?thesis using m Call by auto
  next
    case (Tick t)
    then show ?thesis using m by (simp add: classes_tick)
  next
    case Load
    then show ?thesis using marker_run_handlers[OF m] by (simp add: window_load_def)
  qed
  then show ?thesis
    using initialised_ok(3)[of dims W H opts] by (simp add: classes_destroy destroy_frame)
qed

theorem marker_class_stays_witness:
  "''moodboard'' \<in> classes (board 2 no_options) \<and>
   ''moodboard'' \<in> classes (step (Call Destroy) (board 2 no_options)) \<and>
   classes (snd (moodboard Destroy (board 2 no_options))) =
     classes (board 2 no_options) - {''playing''} \<and>
   controls_blocks (snd (moodboard Destroy (board 2 no_options))) = 0"
proof -
  have h: "''moodboard'' \<in> classes (board 2 no_options)" by code_simp
  have a: "attached (board 2 no_options) = Some 0" by code_simp
  show ?thesis
    using h a marker_class_stays [of "board 2 no_options" "Call Destroy" "[]" 0 0 no_options]
    by simp
qed

end
